theory Spec2Isabelle
  imports Complex_Main "HOL-Library.AList"
begin

section \<open>Python errors\<close>

text \<open>
  Every \<^verbatim>\<open>raise\<close>, failed \<^verbatim>\<open>assert\<close> and failing built-in of the modelled code is a value:
  a function that can fail returns \<open>pyerr + 'a\<close>, with \<open>Inl\<close> for the exception.
\<close>

datatype pyerr =
  IndexError | KeyError | ValueError | TypeError | AssertionError
  | AttributeError | OverflowError | ZeroDivisionError | NameError

section \<open>Tokenization: \<^verbatim>\<open>sentence_segmentation\<close>\<close>

text \<open>
  \<^verbatim>\<open>src/src/speechless/processing/tokenization.py\<close>. An \<^verbatim>\<open>EditToken\<close> carries its normalized
  text, its two timestamps (Python floats, kept abstract as \<open>'t\<close>), its character position in
  the document and its index in the transcript. The last two are \<^verbatim>\<open>None\<close> on a fresh token;
  step 0 of \<^verbatim>\<open>sentence_segmentation\<close> writes both before anything reads them, so the record
  carries them as plain numbers. The tokens of a transcript are distinct objects, so the
  in-place updates of the source are updates of list elements here. A character of a
  \<open>string\<close> stands for one code point of the Python text.
\<close>

record 't EditToken =
  tok_text :: string
  start_time :: 't
  end_time :: 't
  start_pos :: int
  index :: nat

definition TOKEN_SEPARATOR :: string where
  "TOKEN_SEPARATOR = '' ''"

definition SENTENCE_SEPARATOR :: string where
  "SENTENCE_SEPARATOR = ''.''"

definition SENTENCE_SEPARATOR_ALTERNATIVES :: "string list" where
  "SENTENCE_SEPARATOR_ALTERNATIVES = ['','']"

text \<open>A sentence of the spaCy document: only its two character offsets are read.\<close>

record Span =
  start_char :: nat
  end_char :: nat

text \<open>\<^verbatim>\<open>s.endswith(suf)\<close>, \<^verbatim>\<open>s[:-n]\<close> for \<open>n > 0\<close> and \<^verbatim>\<open>s[-n:]\<close> for \<open>n > 0\<close>.\<close>

definition endswith :: "string \<Rightarrow> string \<Rightarrow> bool" where
  "endswith s suf = (take (length suf) (rev s) = rev suf)"

definition drop_last :: "nat \<Rightarrow> string \<Rightarrow> string" where
  "drop_last n s = take (length s - n) s"

definition take_last :: "nat \<Rightarrow> string \<Rightarrow> string" where
  "take_last n s = drop (length s - n) s"

text \<open>
  Step 0, lines 75-78: the first token starts at 0; every token but the last gets the
  token separator appended, and the next token starts where this one (separator included)
  ends. The position written into the current token is carried as \<open>pos\<close>.
\<close>

fun add_token_separators :: "int \<Rightarrow> 't EditToken list \<Rightarrow> 't EditToken list" where
  "add_token_separators pos [] = []"
| "add_token_separators pos [t] = [t\<lparr>start_pos := pos\<rparr>]"
| "add_token_separators pos (t # u # us) =
     (let t' = t\<lparr>tok_text := tok_text t @ TOKEN_SEPARATOR, start_pos := pos\<rparr>
      in t' # add_token_separators (pos + int (length (tok_text t'))) (u # us))"

text \<open>
  \<^verbatim>\<open>transcript[0].start_pos = 0\<close> comes first and raises \<^verbatim>\<open>IndexError\<close> on the empty
  transcript.
\<close>

definition step0 :: "'t EditToken list \<Rightarrow> pyerr + 't EditToken list" where
  "step0 transcript =
     (case transcript of
        [] \<Rightarrow> Inl IndexError
      | _ # _ \<Rightarrow> Inr (add_token_separators 0 transcript))"

text \<open>Lines 81-82: \<^verbatim>\<open>token.index = idx\<close> over \<^verbatim>\<open>enumerate(transcript)\<close>.\<close>

definition assign_indices :: "'t EditToken list \<Rightarrow> 't EditToken list" where
  "assign_indices ts = map (\<lambda>(idx, token). token\<lparr>index := idx\<rparr>) (enumerate 0 ts)"

definition raw_transcript :: "'t EditToken list \<Rightarrow> string" where
  "raw_transcript ts = concat (map tok_text ts)"

text \<open>
  Step 1, lines 93-108: each spaCy sentence takes, from the tokens not yet consumed, the
  longest run that starts before the sentence ends; a sentence that got no token is
  popped. Tokens left when the sentences run out are in no sentence.
\<close>

fun assign_tokens :: "Span list \<Rightarrow> 't EditToken list \<Rightarrow> 't EditToken list list" where
  "assign_tokens [] rest = []"
| "assign_tokens (sent # sents) rest =
     (let inside = (\<lambda>token. start_pos token < int (end_char sent));
          taken = takeWhile inside rest;
          rest' = dropWhile inside rest
      in if taken = [] then assign_tokens sents rest'
         else taken # assign_tokens sents rest')"

text \<open>
  Step 2, lines 111-123. \<open>first_gap\<close> is the inner \<^verbatim>\<open>for\<close>: the index
  \<^verbatim>\<open>prev_token_idx + 1\<close> of the first token that starts more than three seconds after
  its predecessor ended. The test \<^verbatim>\<open>(token.start_time - prev_token.end_time) > 3.0\<close> is
  a float computation and is the parameter \<open>long_pause\<close>, given the predecessor's end and
  the token's start.
\<close>

fun first_gap :: "('t \<Rightarrow> 't \<Rightarrow> bool) \<Rightarrow> 't EditToken list \<Rightarrow> nat option" where
  "first_gap long_pause (prev_token # token # ts) =
     (if long_pause (end_time prev_token) (start_time token) then Some 1
      else map_option Suc (first_gap long_pause (token # ts)))"
| "first_gap long_pause _ = None"

lemma first_gap_bounds:
  "first_gap long_pause sent = Some k \<Longrightarrow> 0 < k \<and> k < length sent"
  by (induction long_pause sent arbitrary: k rule: first_gap.induct)
     (auto split: if_splits)

text \<open>
  The outer \<^verbatim>\<open>while\<close>: a sentence with a gap is cut there, its head stays at
  \<^verbatim>\<open>sent_idx\<close>, its tail is inserted right after and is the next sentence looked at.
\<close>

function split_by_time ::
  "('t \<Rightarrow> 't \<Rightarrow> bool) \<Rightarrow> 't EditToken list list \<Rightarrow> 't EditToken list list" where
  "split_by_time long_pause [] = []"
| "split_by_time long_pause (sent # sents) =
     (case first_gap long_pause sent of
        None \<Rightarrow> sent # split_by_time long_pause sents
      | Some token_idx \<Rightarrow>
          take token_idx sent # split_by_time long_pause (drop token_idx sent # sents))"
  by pat_completeness auto
termination
  by (relation "measure (\<lambda>(g, sents). length sents + length (concat sents))")
     (auto dest: first_gap_bounds)

text \<open>
  Step 3, lines 126-145, for one pair of neighbouring sentences: the new text of the last
  token of \<^verbatim>\<open>sent\<close> and the new \<^verbatim>\<open>pos_diff\<close>. The source's first
  test, \<^verbatim>\<open>text[-1:] != '.'\<close>, is made by the caller.
\<close>

definition try_alternatives :: "string \<Rightarrow> int \<Rightarrow> string list \<Rightarrow> string \<times> int" where
  "try_alternatives txt0 pos_diff alts =
     (case filter (\<lambda>alt. endswith txt0 (alt @ TOKEN_SEPARATOR)) alts of
        [] \<Rightarrow> (txt0, pos_diff)
      | alt # _ \<Rightarrow>
          (let alternative = alt @ TOKEN_SEPARATOR
           in (drop_last (length alternative) txt0 @ SENTENCE_SEPARATOR,
               pos_diff + int (length SENTENCE_SEPARATOR) - int (length alternative))))"

definition close_sentence :: "string \<Rightarrow> int \<Rightarrow> pyerr + string \<times> int" where
  "close_sentence txt0 pos_diff =
     (let (txt1, pd1) = try_alternatives txt0 pos_diff SENTENCE_SEPARATOR_ALTERNATIVES
      in if endswith txt1 (SENTENCE_SEPARATOR @ TOKEN_SEPARATOR)
         then Inr (drop_last (length TOKEN_SEPARATOR) txt1, pd1 - int (length TOKEN_SEPARATOR))
         else if endswith txt1 TOKEN_SEPARATOR
         then Inr (drop_last (length TOKEN_SEPARATOR) txt1 @ SENTENCE_SEPARATOR,
                   pd1 + int (length SENTENCE_SEPARATOR) - int (length TOKEN_SEPARATOR))
         else if endswith txt1 SENTENCE_SEPARATOR then Inr (txt1, pd1)
         else Inl AssertionError)"

fun add_sentence_separators ::
  "int \<Rightarrow> 't EditToken list list \<Rightarrow> pyerr + 't EditToken list list" where
  "add_sentence_separators pos_diff (sent # next_sent # sents) =
     (if sent = [] then Inl IndexError
      else if take_last (length SENTENCE_SEPARATOR) (tok_text (last sent)) \<noteq> SENTENCE_SEPARATOR
      then (case close_sentence (tok_text (last sent)) pos_diff of
              Inl e \<Rightarrow> Inl e
            | Inr (txt', pd') \<Rightarrow>
                (case add_sentence_separators pd'
                        (map (\<lambda>token. token\<lparr>start_pos := start_pos token + pd'\<rparr>) next_sent
                         # sents) of
                   Inl e \<Rightarrow> Inl e
                 | Inr tl_sents \<Rightarrow> Inr ((butlast sent @ [(last sent)\<lparr>tok_text := txt'\<rparr>]) # tl_sents)))
      else (case add_sentence_separators pos_diff (next_sent # sents) of
              Inl e \<Rightarrow> Inl e
            | Inr tl_sents \<Rightarrow> Inr (sent # tl_sents)))"
| "add_sentence_separators pos_diff sents = Inr sents"

text \<open>
  The whole function. \<open>nlp\<close> is \<^verbatim>\<open>list(spacy_nlp(raw_transcript).sents)\<close>, the sentences
  spaCy finds in a text: a library's answer, so a parameter.
\<close>

definition sentence_segmentation ::
  "(string \<Rightarrow> Span list) \<Rightarrow> ('t \<Rightarrow> 't \<Rightarrow> bool) \<Rightarrow> 't EditToken list
     \<Rightarrow> pyerr + 't EditToken list list" where
  "sentence_segmentation nlp long_pause transcript =
     (case step0 transcript of
        Inl e \<Rightarrow> Inl e
      | Inr separated \<Rightarrow>
          (let tokens = assign_indices separated;
               nlp_sents = nlp (raw_transcript tokens)
           in case nlp_sents of
                [] \<Rightarrow> Inl IndexError
              | first_sent # _ \<Rightarrow>
                  if start_char first_sent \<noteq> 0 then Inl AssertionError
                  else add_sentence_separators 0
                         (split_by_time long_pause (assign_tokens nlp_sents tokens))))"

section \<open>Properties of \<^verbatim>\<open>sentence_segmentation\<close>\<close>

lemma length_add_token_separators [simp]:
  "length (add_token_separators pos ts) = length ts"
  by (induction pos ts rule: add_token_separators.induct) (simp_all add: Let_def)

text \<open>
  Claim C10. The first statement of \<^verbatim>\<open>sentence_segmentation\<close> reads
  \<^verbatim>\<open>transcript[0]\<close>: on the empty transcript the function raises \<^verbatim>\<open>IndexError\<close>,
  whatever spaCy would answer (it is never asked) and returns no segmentation; on a
  transcript that is not empty that access succeeds and step 0 returns the tokens, as
  many as it was given.
\<close>

theorem empty_transcript_raises_IndexError:
  "sentence_segmentation nlp long_pause [] = Inl IndexError \<and>
   (transcript \<noteq> [] \<longrightarrow>
      (\<exists>separated. step0 transcript = Inr separated \<and>
         length separated = length transcript))"
  by (simp add: sentence_segmentation_def step0_def split: list.splits)

theorem empty_transcript_raises_IndexError_witness:
  "sentence_segmentation (\<lambda>raw. []) (\<lambda>(e::rat) s. 3 < s - e) [] = Inl IndexError \<and>
   [\<lparr>tok_text = ''Hello'', start_time = 0::rat, end_time = 1, start_pos = 0, index = 0\<rparr>]
     \<noteq> [] \<and>
   (\<exists>separated.
      step0 [\<lparr>tok_text = ''Hello'', start_time = 0::rat, end_time = 1, start_pos = 0,
               index = 0\<rparr>] = Inr separated \<and>
      length separated = 1)"
  using empty_transcript_raises_IndexError [of "\<lambda>raw. []" "\<lambda>(e::rat) s. 3 < s - e"
      "[\<lparr>tok_text = ''Hello'', start_time = 0::rat, end_time = 1, start_pos = 0,
          index = 0\<rparr>]"]
  by simp

text \<open>
  Claim C9 fails on the code. A transcript of two tokens, \<^verbatim>\<open>Hello.\<close> and a token whose
  text the normalization emptied (\<^verbatim>\<open>[applause]\<close>): the document is \<^verbatim>\<open>'Hello. '\<close>, seven
  characters, and the second token starts at 7. The one sentence of the document ends at
  6, or at 7 if it is taken to its trailing blank; either way the second token does not
  start before it, and the returned segmentation holds the first token only.
\<close>

theorem trailing_empty_token_is_dropped:
  "sentence_segmentation (\<lambda>raw. [\<lparr>start_char = 0, end_char = 6\<rparr>]) (\<lambda>(e::rat) s. 3 < s - e)
     [\<lparr>tok_text = ''Hello.'', start_time = 0, end_time = 1, start_pos = 0, index = 0\<rparr>,
      \<lparr>tok_text = '''', start_time = 1, end_time = 2, start_pos = 0, index = 0\<rparr>]
   = Inr [[\<lparr>tok_text = ''Hello. '', start_time = 0, end_time = 1, start_pos = 0,
             index = 0\<rparr>]] \<and>
   sentence_segmentation (\<lambda>raw. [\<lparr>start_char = 0, end_char = 7\<rparr>]) (\<lambda>(e::rat) s. 3 < s - e)
     [\<lparr>tok_text = ''Hello.'', start_time = 0, end_time = 1, start_pos = 0, index = 0\<rparr>,
      \<lparr>tok_text = '''', start_time = 1, end_time = 2, start_pos = 0, index = 0\<rparr>]
   = Inr [[\<lparr>tok_text = ''Hello. '', start_time = 0, end_time = 1, start_pos = 0,
             index = 0\<rparr>]]"
  by (simp add: sentence_segmentation_def step0_def assign_indices_def raw_transcript_def
        TOKEN_SEPARATOR_def enumerate_eq_zip upt_rec)

section \<open>The editor's settings: values and built-ins\<close>

text \<open>
  \<^verbatim>\<open>src/speechless/editor.py\<close>. A settings document is what \<^verbatim>\<open>json.load\<close> returns, and the
  values an editor keeps are of the same kinds: \<^verbatim>\<open>None\<close>, booleans, integers, floats,
  strings, lists and dictionaries with string keys. Python's floats are kept abstract as
  \<open>'f\<close>. A dictionary is an association list in insertion order; a dictionary has each key
  once.
\<close>

datatype 'f json =
    JNull
  | JBool bool
  | JInt int
  | JFloat 'f
  | JStr string
  | JList "'f json list"
  | JObj "(string \<times> 'f json) list"

text \<open>
  What the Python built-ins do on values they cannot simply pass through is a parameter:
  the text \<^verbatim>\<open>str\<close> gives for a value that is not a string, the parsing of numbers out of
  strings, and every float operation (conversion from an integer, truncation to one, the
  test \<^verbatim>\<open>f <= 0\<close>, truthiness, the exact \<^verbatim>\<open>Fraction\<close> of a float).
\<close>

record 'f builtins =
  str_of :: "'f json \<Rightarrow> string"
  int_of_str :: "string \<Rightarrow> pyerr + int"
  int_of_float :: "'f \<Rightarrow> pyerr + int"
  float_of_str :: "string \<Rightarrow> pyerr + 'f"
  float_of_int :: "int \<Rightarrow> pyerr + 'f"
  float_le_zero :: "'f \<Rightarrow> bool"
  float_truth :: "'f \<Rightarrow> bool"
  fraction_of_float :: "'f \<Rightarrow> pyerr + rat"
  fraction_of_str :: "string \<Rightarrow> pyerr + rat"

text \<open>\<^verbatim>\<open>str(v)\<close>, \<^verbatim>\<open>int(v)\<close>, \<^verbatim>\<open>float(v)\<close>, \<^verbatim>\<open>bool(v)\<close>, \<^verbatim>\<open>Fraction(v)\<close> and iteration over \<open>v\<close>.\<close>

definition py_str :: "'f builtins \<Rightarrow> 'f json \<Rightarrow> string" where
  "py_str B v = (case v of JStr s \<Rightarrow> s | _ \<Rightarrow> str_of B v)"

definition py_int :: "'f builtins \<Rightarrow> 'f json \<Rightarrow> pyerr + int" where
  "py_int B v =
     (case v of
        JInt i \<Rightarrow> Inr i
      | JBool b \<Rightarrow> Inr (if b then 1 else 0)
      | JFloat f \<Rightarrow> int_of_float B f
      | JStr s \<Rightarrow> int_of_str B s
      | _ \<Rightarrow> Inl TypeError)"

definition py_float :: "'f builtins \<Rightarrow> 'f json \<Rightarrow> pyerr + 'f" where
  "py_float B v =
     (case v of
        JFloat f \<Rightarrow> Inr f
      | JInt i \<Rightarrow> float_of_int B i
      | JBool b \<Rightarrow> float_of_int B (if b then 1 else 0)
      | JStr s \<Rightarrow> float_of_str B s
      | _ \<Rightarrow> Inl TypeError)"

definition py_bool :: "'f builtins \<Rightarrow> 'f json \<Rightarrow> bool" where
  "py_bool B v =
     (case v of
        JNull \<Rightarrow> False
      | JBool b \<Rightarrow> b
      | JInt i \<Rightarrow> i \<noteq> 0
      | JFloat f \<Rightarrow> float_truth B f
      | JStr s \<Rightarrow> s \<noteq> []
      | JList xs \<Rightarrow> xs \<noteq> []
      | JObj kvs \<Rightarrow> kvs \<noteq> [])"

definition py_Fraction :: "'f builtins \<Rightarrow> 'f json \<Rightarrow> pyerr + rat" where
  "py_Fraction B v =
     (case v of
        JInt i \<Rightarrow> Inr (of_int i)
      | JBool b \<Rightarrow> Inr (if b then 1 else 0)
      | JFloat f \<Rightarrow> fraction_of_float B f
      | JStr s \<Rightarrow> fraction_of_str B s
      | _ \<Rightarrow> Inl TypeError)"

definition py_iter :: "'f json \<Rightarrow> pyerr + 'f json list" where
  "py_iter v =
     (case v of
        JList xs \<Rightarrow> Inr xs
      | JStr s \<Rightarrow> Inr (map (\<lambda>c. JStr [c]) s)
      | JObj kvs \<Rightarrow> Inr (map (\<lambda>kv. JStr (fst kv)) kvs)
      | _ \<Rightarrow> Inl TypeError)"

text \<open>A list comprehension over calls that may raise: the first exception ends it.\<close>

fun collect :: "(pyerr + 'a) list \<Rightarrow> pyerr + 'a list" where
  "collect [] = Inr []"
| "collect (r # rs) =
     (case r of
        Inl e \<Rightarrow> Inl e
      | Inr x \<Rightarrow> (case collect rs of Inl e \<Rightarrow> Inl e | Inr xs \<Rightarrow> Inr (x # xs)))"

text \<open>
  The string methods used on the top-level keys, on ASCII text: \<^verbatim>\<open>lower()\<close>,
  \<^verbatim>\<open>isnumeric()\<close> and \<^verbatim>\<open>int()\<close> of a string of digits; and \<^verbatim>\<open>str\<close> of a natural number,
  which is how \<^verbatim>\<open>json.dump\<close> writes an integer key.
\<close>

definition lower_char :: "char \<Rightarrow> char" where
  "lower_char c =
     (if 65 \<le> (of_char c :: nat) \<and> (of_char c :: nat) \<le> 90
      then char_of ((of_char c :: nat) + 32) else c)"

definition lower :: "string \<Rightarrow> string" where
  "lower s = map lower_char s"

definition is_digit :: "char \<Rightarrow> bool" where
  "is_digit c = (48 \<le> (of_char c :: nat) \<and> (of_char c :: nat) \<le> 57)"

definition isnumeric :: "string \<Rightarrow> bool" where
  "isnumeric s = (s \<noteq> [] \<and> list_all is_digit s)"

definition nat_of_string :: "string \<Rightarrow> nat" where
  "nat_of_string s = foldl (\<lambda>n c. 10 * n + ((of_char c :: nat) - 48)) 0 s"

definition digit_char :: "nat \<Rightarrow> char" where
  "digit_char d = char_of (48 + d)"

fun string_of_nat :: "nat \<Rightarrow> string" where
  "string_of_nat n =
     (if n < 10 then [digit_char n]
      else string_of_nat (n div 10) @ [digit_char (n mod 10)])"

declare string_of_nat.simps [simp del]

section \<open>The editor: construction, \<^verbatim>\<open>from_json\<close>, \<^verbatim>\<open>export_json\<close>\<close>

definition ID_VIDEO_STREAM :: string where "ID_VIDEO_STREAM = ''video''"
definition ID_AUDIO_STREAM :: string where "ID_AUDIO_STREAM = ''audio''"
definition SUPPORTED_STREAM_TYPES :: "string list" where
  "SUPPORTED_STREAM_TYPES = [ID_VIDEO_STREAM, ID_AUDIO_STREAM]"

definition ID_CODEC :: string where "ID_CODEC = ''codec''"
definition ID_CODEC_OPTIONS :: string where "ID_CODEC_OPTIONS = ''codec-options''"
definition ID_BITRATE :: string where "ID_BITRATE = ''bitrate''"
definition ID_RESOLUTION :: string where "ID_RESOLUTION = ''resolution''"
definition ID_MAX_FPS :: string where "ID_MAX_FPS = ''max-fps''"
definition ID_SAMPLE_RATE :: string where "ID_SAMPLE_RATE = ''sample-rate''"
definition ID_MONO :: string where "ID_MONO = ''mono''"
definition ID_TIMELINE_CHANGES :: string where "ID_TIMELINE_CHANGES = ''timeline-changes''"

text \<open>
  The keys of \<^verbatim>\<open>Editor.settings\<close> are stream types (strings) and stream indices
  (integers, made by \<^verbatim>\<open>int\<close> of a numeric string, so never negative).
\<close>

datatype settings_key = TypeKey string | IndexKey nat

type_synonym 'f stream_settings = "(string \<times> 'f json) list"

record 'f Editor =
  settings :: "(settings_key \<times> 'f stream_settings) list"

text \<open>What the logger is told: the level and the message, by its template and arguments.\<close>

datatype message =
    Started_editing string
  | Finished_editing string string
  | Empty_recording string
  | Skipping_no_decoder nat
  | Skipping_not_supported nat string
  | Low_time_base nat rat rat
  | Unrecognized_identifier string
  | Unrecognized_setting string

datatype log_record = Info message | Warning message

text \<open>\<^verbatim>\<open>Editor.__init__\<close>: \<^verbatim>\<open>None\<close> stands for an empty dictionary.\<close>

definition new_Editor ::
  "'f stream_settings option \<Rightarrow> 'f stream_settings option \<Rightarrow> 'f Editor" where
  "new_Editor video_settings audio_settings =
     \<lparr>settings =
        [(TypeKey ID_VIDEO_STREAM, case video_settings of None \<Rightarrow> [] | Some d \<Rightarrow> d),
         (TypeKey ID_AUDIO_STREAM, case audio_settings of None \<Rightarrow> [] | Some d \<Rightarrow> d)]\<rparr>"

text \<open>
  Lines 213-239 for one \<^verbatim>\<open>key, value\<close> of a section: the value stored under the key
  (\<open>None\<close> for a key that is not recognized, which is skipped with a warning), or the
  exception. The positivity checks are on the converted value.
\<close>

definition load_setting :: "'f builtins \<Rightarrow> string \<Rightarrow> 'f json \<Rightarrow> pyerr + 'f json option" where
  "load_setting B key v =
     (if key = ID_CODEC then Inr (Some (JStr (py_str B v)))
      else if key = ID_CODEC_OPTIONS then
        (case v of
           JObj kvs \<Rightarrow> Inr (Some (JObj (map (\<lambda>(option_key, option_value).
                                  (option_key, JStr (py_str B option_value))) kvs)))
         | _ \<Rightarrow> Inl AttributeError)
      else if key = ID_BITRATE then
        (case py_int B v of
           Inl e \<Rightarrow> Inl e
         | Inr i \<Rightarrow> if i \<le> 0 then Inl ValueError else Inr (Some (JInt i)))
      else if key = ID_RESOLUTION then
        (case py_iter v of
           Inl e \<Rightarrow> Inl e
         | Inr dims \<Rightarrow>
             (case collect (map (py_int B) dims) of
                Inl e \<Rightarrow> Inl e
              | Inr ints \<Rightarrow>
                  (case ints of
                     w # h # _ \<Rightarrow>
                       if w * h \<le> 0 then Inl ValueError
                       else Inr (Some (JList (map JInt ints)))
                   | _ \<Rightarrow> Inl IndexError)))
      else if key = ID_MAX_FPS then
        (case py_float B v of
           Inl e \<Rightarrow> Inl e
         | Inr f \<Rightarrow> if float_le_zero B f then Inl ValueError else Inr (Some (JFloat f)))
      else if key = ID_SAMPLE_RATE then
        (case py_int B v of
           Inl e \<Rightarrow> Inl e
         | Inr i \<Rightarrow> if i \<le> 0 then Inl ValueError else Inr (Some (JInt i)))
      else if key = ID_MONO then Inr (Some (JBool (py_bool B v)))
      else Inr None)"

text \<open>The inner loop, \<^verbatim>\<open>for key, value in config.items()\<close>, over one section.\<close>

fun load_section ::
  "'f builtins \<Rightarrow> (string \<times> 'f json) list \<Rightarrow> 'f stream_settings \<times> log_record list
     \<Rightarrow> pyerr + 'f stream_settings \<times> log_record list" where
  "load_section B [] (dict, logs) = Inr (dict, logs)"
| "load_section B ((key, v) # config) (dict, logs) =
     (case load_setting B key v of
        Inl e \<Rightarrow> Inl e
      | Inr None \<Rightarrow> load_section B config (dict, logs @ [Warning (Unrecognized_setting key)])
      | Inr (Some v') \<Rightarrow> load_section B config (AList.update key v' dict, logs))"

text \<open>
  The outer loop, lines 201-211. \<^verbatim>\<open>setdefault\<close> gives the dictionary already kept under
  the key, or a new empty one put there; the inner loop then fills that dictionary.
  \<^verbatim>\<open>config.items()\<close> raises \<^verbatim>\<open>AttributeError\<close> when the section is not a dictionary.
\<close>

definition section_key :: "string \<Rightarrow> settings_key option" where
  "section_key identifier =
     (if identifier \<in> set [ID_VIDEO_STREAM, ID_AUDIO_STREAM] then Some (TypeKey identifier)
      else if isnumeric identifier then Some (IndexKey (nat_of_string identifier))
      else None)"

fun load_sections ::
  "'f builtins \<Rightarrow> (string \<times> 'f json) list \<Rightarrow> 'f Editor \<times> log_record list
     \<Rightarrow> pyerr + 'f Editor \<times> log_record list" where
  "load_sections B [] (editor, logs) = Inr (editor, logs)"
| "load_sections B ((identifier0, config) # json_settings) (editor, logs) =
     (let identifier = lower identifier0 in
      case section_key identifier of
        None \<Rightarrow>
          load_sections B json_settings
            (editor,
             if identifier \<noteq> ID_TIMELINE_CHANGES
             then logs @ [Warning (Unrecognized_identifier identifier)] else logs)
      | Some k \<Rightarrow>
          (let dict = (case map_of (settings editor) k of None \<Rightarrow> [] | Some d \<Rightarrow> d) in
           case config of
             JObj items \<Rightarrow>
               (case load_section B items (dict, logs) of
                  Inl e \<Rightarrow> Inl e
                | Inr (dict', logs') \<Rightarrow>
                    load_sections B json_settings
                      (editor\<lparr>settings := AList.update k dict' (settings editor)\<rparr>, logs'))
           | _ \<Rightarrow> Inl AttributeError))"

definition from_json ::
  "'f builtins \<Rightarrow> (string \<times> 'f json) list \<Rightarrow> pyerr + 'f Editor \<times> log_record list" where
  "from_json B json_settings = load_sections B json_settings (new_Editor None None, [])"

text \<open>
  \<^verbatim>\<open>export_json\<close>, lines 183-191, as the document \<^verbatim>\<open>json.load\<close> reads back from the file
  written: \<^verbatim>\<open>json.dump\<close> writes an integer key as its decimal text and leaves the values
  as they are. The interval list is \<^verbatim>\<open>None\<close>, a list of \<^verbatim>\<open>TimelineChange\<close> (of which
  \<^verbatim>\<open>beg\<close>, \<^verbatim>\<open>end\<close> and \<^verbatim>\<open>multi\<close> are read) or an array, written row by row.
\<close>

record 'f TimelineChange =
  beg :: 'f
  fin :: 'f
  multi :: 'f

datatype 'f changes =
    No_changes | Change_list "'f TimelineChange list" | Nd_array "'f list list"

definition dump_key :: "settings_key \<Rightarrow> string" where
  "dump_key k = (case k of TypeKey s \<Rightarrow> s | IndexKey n \<Rightarrow> string_of_nat n)"

definition changes_rows :: "'f changes \<Rightarrow> 'f json option" where
  "changes_rows ch =
     (case ch of
        No_changes \<Rightarrow> None
      | Nd_array rows \<Rightarrow> Some (JList (map (\<lambda>row. JList (map JFloat row)) rows))
      | Change_list rs \<Rightarrow>
          Some (JList (map (\<lambda>r. JList [JFloat (beg r), JFloat (fin r), JFloat (multi r)]) rs)))"

definition export_json :: "'f Editor \<Rightarrow> 'f changes \<Rightarrow> pyerr + (string \<times> 'f json) list" where
  "export_json editor ch =
     (if TypeKey ID_TIMELINE_CHANGES \<in> fst ` set (settings editor) then Inl AssertionError
      else Inr (map (\<lambda>(k, dict). (dump_key k, JObj dict)) (settings editor) @
                (case changes_rows ch of
                   None \<Rightarrow> []
                 | Some rows \<Rightarrow> [(ID_TIMELINE_CHANGES, rows)])))"

text \<open>
  An instance of the built-ins, for evaluating the model on examples: a float is the
  rational it denotes, numbers are parsed from plain decimal strings, and \<^verbatim>\<open>str\<close> is given
  for \<^verbatim>\<open>None\<close>, booleans and integers.
\<close>

definition exact_int_of_str :: "string \<Rightarrow> pyerr + int" where
  "exact_int_of_str s =
     (if isnumeric s then Inr (int (nat_of_string s))
      else case s of
             c # r \<Rightarrow> if c = CHR ''-'' \<and> isnumeric r then Inr (- int (nat_of_string r))
                      else Inl ValueError
           | [] \<Rightarrow> Inl ValueError)"

definition exact_str_of :: "rat json \<Rightarrow> string" where
  "exact_str_of v =
     (case v of
        JNull \<Rightarrow> ''None''
      | JBool b \<Rightarrow> (if b then ''True'' else ''False'')
      | JInt i \<Rightarrow> (if i < 0 then CHR ''-'' # string_of_nat (nat (- i)) else string_of_nat (nat i))
      | _ \<Rightarrow> [])"

definition exact_builtins :: "rat builtins" where
  "exact_builtins =
     \<lparr>str_of = exact_str_of,
      int_of_str = exact_int_of_str,
      int_of_float = (\<lambda>f. Inr (if 0 \<le> f then \<lfloor>f\<rfloor> else \<lceil>f\<rceil>)),
      float_of_str = (\<lambda>s. map_sum id of_int (exact_int_of_str s)),
      float_of_int = (\<lambda>i. Inr (of_int i)),
      float_le_zero = (\<lambda>f. f \<le> 0),
      float_truth = (\<lambda>f. f \<noteq> 0),
      fraction_of_float = Inr,
      fraction_of_str = (\<lambda>s. map_sum id of_int (exact_int_of_str s))\<rparr>"

section \<open>Properties of \<^verbatim>\<open>from_json\<close> and \<^verbatim>\<open>export_json\<close>\<close>

lemma of_char_digit_char: "d < 10 \<Longrightarrow> (of_char (digit_char d) :: nat) = 48 + d"
  by (simp add: digit_char_def)

lemma is_digit_digit_char: "d < 10 \<Longrightarrow> is_digit (digit_char d)"
  by (simp add: is_digit_def of_char_digit_char)

lemma lower_char_digit: "is_digit c \<Longrightarrow> lower_char c = c"
  by (simp add: is_digit_def lower_char_def)

lemma string_of_nat_digits: "list_all is_digit (string_of_nat n) \<and> string_of_nat n \<noteq> []"
proof (induction n rule: string_of_nat.induct)
  case (1 n)
  show ?case
  proof (cases "n < 10")
    case True
    then show ?thesis by (simp add: string_of_nat.simps [of n] is_digit_digit_char)
  next
    case False
    with 1 show ?thesis
      by (simp add: string_of_nat.simps [of n] is_digit_digit_char)
  qed
qed

lemma isnumeric_string_of_nat: "isnumeric (string_of_nat n)"
  by (simp add: isnumeric_def string_of_nat_digits)

lemma lower_digits: "list_all is_digit s \<Longrightarrow> lower s = s"
  by (induction s) (simp_all add: lower_def lower_char_digit)

lemma lower_string_of_nat: "lower (string_of_nat n) = string_of_nat n"
  by (simp add: lower_digits string_of_nat_digits)

lemma nat_of_string_snoc:
  "nat_of_string (s @ [c]) = 10 * nat_of_string s + ((of_char c :: nat) - 48)"
  by (simp add: nat_of_string_def)

lemma nat_of_string_string_of_nat: "nat_of_string (string_of_nat n) = n"
proof (induction n rule: string_of_nat.induct)
  case (1 n)
  show ?case
  proof (cases "n < 10")
    case True
    then show ?thesis
      by (simp add: string_of_nat.simps [of n] nat_of_string_def of_char_digit_char)
  next
    case False
    with 1 show ?thesis
      by (simp add: string_of_nat.simps [of n] nat_of_string_snoc of_char_digit_char)
  qed
qed

lemma section_key_index: "section_key (string_of_nat n) = Some (IndexKey n)"
proof -
  have "\<not> isnumeric ID_VIDEO_STREAM" "\<not> isnumeric ID_AUDIO_STREAM"
    by (simp_all add: isnumeric_def ID_VIDEO_STREAM_def ID_AUDIO_STREAM_def is_digit_def)
  then have "string_of_nat n \<noteq> ID_VIDEO_STREAM" "string_of_nat n \<noteq> ID_AUDIO_STREAM"
    using isnumeric_string_of_nat [of n] by auto
  then show ?thesis
    by (simp add: section_key_def isnumeric_string_of_nat nat_of_string_string_of_nat)
qed

lemma section_key_types:
  "section_key ID_VIDEO_STREAM = Some (TypeKey ID_VIDEO_STREAM)"
  "section_key ID_AUDIO_STREAM = Some (TypeKey ID_AUDIO_STREAM)"
  "section_key ID_TIMELINE_CHANGES = None"
  "lower ID_VIDEO_STREAM = ID_VIDEO_STREAM"
  "lower ID_AUDIO_STREAM = ID_AUDIO_STREAM"
  "lower ID_TIMELINE_CHANGES = ID_TIMELINE_CHANGES"
  by (simp_all add: section_key_def ID_VIDEO_STREAM_def ID_AUDIO_STREAM_def
      ID_TIMELINE_CHANGES_def isnumeric_def is_digit_def lower_def lower_char_def)
lemma collect_py_int_JInt: "collect (map (py_int B \<circ> JInt) ints) = Inr ints"
  by (induction ints) (simp_all add: py_int_def)

lemma py_str_JStr: "py_str B (JStr s) = s"
  by (simp add: py_str_def)

lemma load_setting_idem:
  assumes "load_setting B key v = Inr (Some v')"
  shows "load_setting B key v' = Inr (Some v')"
proof -
  consider (codec) "key = ID_CODEC"
    | (opts) "key \<noteq> ID_CODEC" "key = ID_CODEC_OPTIONS"
    | (bitrate) "key \<noteq> ID_CODEC" "key \<noteq> ID_CODEC_OPTIONS" "key = ID_BITRATE"
    | (res) "key \<noteq> ID_CODEC" "key \<noteq> ID_CODEC_OPTIONS" "key \<noteq> ID_BITRATE" "key = ID_RESOLUTION"
    | (fps) "key \<noteq> ID_CODEC" "key \<noteq> ID_CODEC_OPTIONS" "key \<noteq> ID_BITRATE" "key \<noteq> ID_RESOLUTION"
        "key = ID_MAX_FPS"
    | (rate) "key \<noteq> ID_CODEC" "key \<noteq> ID_CODEC_OPTIONS" "key \<noteq> ID_BITRATE" "key \<noteq> ID_RESOLUTION"
        "key \<noteq> ID_MAX_FPS" "key = ID_SAMPLE_RATE"
    | (mono) "key \<noteq> ID_CODEC" "key \<noteq> ID_CODEC_OPTIONS" "key \<noteq> ID_BITRATE" "key \<noteq> ID_RESOLUTION"
        "key \<noteq> ID_MAX_FPS" "key \<noteq> ID_SAMPLE_RATE" "key = ID_MONO"
    | (other) "key \<noteq> ID_CODEC" "key \<noteq> ID_CODEC_OPTIONS" "key \<noteq> ID_BITRATE" "key \<noteq> ID_RESOLUTION"
        "key \<noteq> ID_MAX_FPS" "key \<noteq> ID_SAMPLE_RATE" "key \<noteq> ID_MONO"
    by blast
  then show ?thesis
  proof cases
    case codec
    with assms show ?thesis by (auto simp: load_setting_def py_str_JStr)
  next
    case opts
    with assms obtain kvs where v: "v = JObj kvs"
      and v': "v' = JObj (map (\<lambda>(k, x). (k, JStr (py_str B x))) kvs)"
      by (auto simp: load_setting_def split: json.splits)
    have "map (\<lambda>(k, x). (k, JStr (py_str B x))) (map (\<lambda>(k, x). (k, JStr (py_str B x))) kvs)
          = map (\<lambda>(k, x). (k, JStr (py_str B x))) kvs"
      by (induction kvs) (auto simp: py_str_JStr)
    with opts v' show ?thesis by (simp add: load_setting_def)
  next
    case bitrate
    with assms show ?thesis
      by (auto simp: load_setting_def py_int_def split: sum.splits if_splits)
  next
    case res
    with assms obtain dims ints w h rest where "py_iter v = Inr dims"
      "collect (map (py_int B) dims) = Inr ints" "ints = w # h # rest" "\<not> w * h \<le> 0"
      "v' = JList (map JInt ints)"
      by (auto simp: load_setting_def split: sum.splits list.splits if_splits)
    note facts = this
    have "load_setting B key (JList (map JInt ints)) =
            (case ints of
               w # h # _ \<Rightarrow>
                 if w * h \<le> 0 then Inl ValueError else Inr (Some (JList (map JInt ints)))
             | _ \<Rightarrow> Inl IndexError)"
      using res by (simp add: load_setting_def py_iter_def collect_py_int_JInt)
    with facts show ?thesis by simp
  next
    case fps
    with assms show ?thesis
      by (auto simp: load_setting_def py_float_def split: sum.splits if_splits)
  next
    case rate
    with assms show ?thesis
      by (auto simp: load_setting_def py_int_def split: sum.splits if_splits)
  next
    case mono
    with assms show ?thesis by (auto simp: load_setting_def py_bool_def)
  next
    case other
    with assms show ?thesis by (simp add: load_setting_def)
  qed
qed
text \<open>
  What \<^verbatim>\<open>from_json\<close> establishes, used in the proofs below: each stored value is one
  that loading leaves as it is, each dictionary has its keys once, and the editor's
  dictionary starts with the two stream types and continues with stream indices.
\<close>

definition loaded_dict :: "'f builtins \<Rightarrow> 'f stream_settings \<Rightarrow> bool" where
  "loaded_dict B dict =
     (distinct (map fst dict) \<and>
      list_all (\<lambda>(key, v). load_setting B key v = Inr (Some v)) dict)"

definition is_index_key :: "settings_key \<Rightarrow> bool" where
  "is_index_key k = (case k of IndexKey _ \<Rightarrow> True | TypeKey _ \<Rightarrow> False)"

definition loaded_editor :: "'f builtins \<Rightarrow> 'f Editor \<Rightarrow> bool" where
  "loaded_editor B editor =
     (case settings editor of
        (k1, dv) # (k2, da) # rest \<Rightarrow>
          k1 = TypeKey ID_VIDEO_STREAM \<and> k2 = TypeKey ID_AUDIO_STREAM \<and>
          list_all (\<lambda>(k, dict). is_index_key k) rest \<and> distinct (map fst rest) \<and>
          list_all (\<lambda>(k, dict). loaded_dict B dict) (settings editor)
      | _ \<Rightarrow> False)"


lemma set_update_subset: "set (AList.update k v al) \<subseteq> insert (k, v) (set al)"
  by (induction al) auto

lemma update_append_new: "k \<notin> fst ` set al \<Longrightarrow> AList.update k v al = al @ [(k, v)]"
  by (induction al) auto

lemma loaded_dict_update:
  assumes "loaded_dict B dict" "load_setting B key v = Inr (Some v')"
  shows "loaded_dict B (AList.update key v' dict)"
proof -
  have "load_setting B key v' = Inr (Some v')"
    using assms(2) by (rule load_setting_idem)
  moreover have "distinct (map fst (AList.update key v' dict))"
    using assms(1) by (simp add: loaded_dict_def distinct_update)
  ultimately show ?thesis
    using assms(1) set_update_subset [of key v' dict]
    by (auto simp: loaded_dict_def list_all_iff)
qed

lemma load_section_loaded:
  "loaded_dict B dict \<Longrightarrow> load_section B items (dict, logs) = Inr (dict', logs')
     \<Longrightarrow> loaded_dict B dict'"
proof (induction items arbitrary: dict logs)
  case Nil
  then show ?case by simp
next
  case (Cons item items)
  obtain key v where item: "item = (key, v)" by (cases item)
  show ?case
  proof (cases "load_setting B key v")
    case (Inl e)
    with Cons.prems item show ?thesis by simp
  next
    case (Inr r)
    show ?thesis
    proof (cases r)
      case None
      with Cons Inr item show ?thesis by simp
    next
      case (Some v')
      with Inr Cons.prems(1) have "loaded_dict B (AList.update key v' dict)"
        by (simp add: loaded_dict_update)
      with Cons.IH Cons.prems(2) Inr Some item show ?thesis by simp
    qed
  qed
qed

lemma load_section_rebuild:
  "loaded_dict B (acc @ dict) \<Longrightarrow> load_section B dict (acc, logs) = Inr (acc @ dict, logs)"
proof (induction dict arbitrary: acc)
  case Nil
  then show ?case by simp
next
  case (Cons item dict)
  obtain key v where item: "item = (key, v)" by (cases item)
  from Cons.prems item have ld: "load_setting B key v = Inr (Some v)"
    and new: "key \<notin> fst ` set acc"
    by (auto simp: loaded_dict_def)
  from Cons.prems item have "loaded_dict B ((acc @ [(key, v)]) @ dict)" by simp
  then have "load_section B dict (acc @ [(key, v)], logs) = Inr ((acc @ [(key, v)]) @ dict, logs)"
    by (rule Cons.IH)
  with ld new item show ?case by (simp add: update_append_new)
qed


lemma section_key_cases:
  "section_key identifier = Some k \<Longrightarrow>
     k = TypeKey ID_VIDEO_STREAM \<or> k = TypeKey ID_AUDIO_STREAM \<or> is_index_key k"
  by (auto simp: section_key_def is_index_key_def split: if_splits)

lemma video_neq_audio: "ID_VIDEO_STREAM \<noteq> ID_AUDIO_STREAM"
  by (simp add: ID_VIDEO_STREAM_def ID_AUDIO_STREAM_def)

lemma loaded_editor_update:
  assumes ed: "loaded_editor B editor"
    and k: "k = TypeKey ID_VIDEO_STREAM \<or> k = TypeKey ID_AUDIO_STREAM \<or> is_index_key k"
    and d: "loaded_dict B dict"
  shows "loaded_editor B (editor\<lparr>settings := AList.update k dict (settings editor)\<rparr>)"
proof -
  from ed obtain dv da rest where s: "settings editor =
      (TypeKey ID_VIDEO_STREAM, dv) # (TypeKey ID_AUDIO_STREAM, da) # rest"
    and idx: "list_all (\<lambda>(k, dict). is_index_key k) rest"
    and dist: "distinct (map fst rest)"
    and ld: "loaded_dict B dv" "loaded_dict B da" "list_all (\<lambda>(k, dict). loaded_dict B dict) rest"
    by (auto simp: loaded_editor_def split: list.splits)
  from k consider (video) "k = TypeKey ID_VIDEO_STREAM" | (audio) "k = TypeKey ID_AUDIO_STREAM"
    | (index) "is_index_key k" by blast
  then show ?thesis
  proof cases
    case video
    with s idx dist ld d show ?thesis by (simp add: loaded_editor_def)
  next
    case audio
    with s idx dist ld d video_neq_audio show ?thesis by (simp add: loaded_editor_def)
  next
    case index
    then have neq: "k \<noteq> TypeKey ID_VIDEO_STREAM" "k \<noteq> TypeKey ID_AUDIO_STREAM"
      by (auto simp: is_index_key_def)
    have "list_all (\<lambda>(k, dict). is_index_key k) (AList.update k dict rest)"
      using idx index set_update_subset [of k dict rest] by (auto simp: list_all_iff)
    moreover have "list_all (\<lambda>(k, dict). loaded_dict B dict) (AList.update k dict rest)"
      using ld(3) d set_update_subset [of k dict rest] by (auto simp: list_all_iff)
    moreover have "distinct (map fst (AList.update k dict rest))"
      using dist by (rule distinct_update)
    ultimately show ?thesis
      using s neq ld by (simp add: loaded_editor_def)
  qed
qed

lemma loaded_editor_lookup:
  assumes "loaded_editor B editor"
  shows "loaded_dict B (case map_of (settings editor) k of None \<Rightarrow> [] | Some d \<Rightarrow> d)"
proof (cases "map_of (settings editor) k")
  case None
  then show ?thesis by (simp add: loaded_dict_def)
next
  case (Some d)
  then have "(k, d) \<in> set (settings editor)" by (rule map_of_SomeD)
  with assms Some show ?thesis
    by (auto simp: loaded_editor_def list_all_iff split: list.splits)
qed

lemma load_sections_loaded:
  "loaded_editor B editor \<Longrightarrow> load_sections B doc (editor, logs) = Inr (editor', logs')
     \<Longrightarrow> loaded_editor B editor'"
proof (induction doc arbitrary: editor logs)
  case Nil
  then show ?case by simp
next
  case (Cons entry doc)
  obtain identifier0 config where entry: "entry = (identifier0, config)" by (cases entry)
  show ?case
  proof (cases "section_key (lower identifier0)")
    case None
    with Cons entry show ?thesis by (simp add: Let_def)
  next
    case (Some k)
    let ?dict = "case map_of (settings editor) k of None \<Rightarrow> [] | Some d \<Rightarrow> d"
    from Cons.prems(2) entry Some obtain items dict' logs1 where
      sec: "load_section B items (?dict, logs) = Inr (dict', logs1)"
      and rest: "load_sections B doc
          (editor\<lparr>settings := AList.update k dict' (settings editor)\<rparr>, logs1)
        = Inr (editor', logs')"
      by (auto simp: Let_def split: json.splits sum.splits)
    have "loaded_dict B ?dict" using Cons.prems(1) by (rule loaded_editor_lookup)
    then have "loaded_dict B dict'" using sec by (rule load_section_loaded)
    with Cons.prems(1) section_key_cases [OF Some]
    have "loaded_editor B (editor\<lparr>settings := AList.update k dict' (settings editor)\<rparr>)"
      by (rule loaded_editor_update)
    then show ?thesis using rest by (rule Cons.IH)
  qed
qed

lemma from_json_loaded:
  "from_json B doc = Inr (editor, logs) \<Longrightarrow> loaded_editor B editor"
proof -
  have "loaded_editor B (new_Editor None None)"
    by (simp add: loaded_editor_def new_Editor_def loaded_dict_def)
  then show "from_json B doc = Inr (editor, logs) \<Longrightarrow> loaded_editor B editor"
    unfolding from_json_def by (rule load_sections_loaded)
qed


lemma index_keys_no_type:
  "list_all (\<lambda>(k, dict). is_index_key k) rest \<Longrightarrow> TypeKey s \<notin> fst ` set rest"
  by (induction rest) (auto simp: is_index_key_def)

lemma load_sections_rebuild_indices:
  assumes "list_all (\<lambda>(k, dict). is_index_key k \<and> loaded_dict B dict) rest"
    and "distinct (map fst (pre @ rest))"
  shows "load_sections B (map (\<lambda>(k, dict). (dump_key k, JObj dict)) rest @ tail)
           (editor\<lparr>settings := pre\<rparr>, logs)
         = load_sections B tail (editor\<lparr>settings := pre @ rest\<rparr>, logs)"
  using assms
proof (induction rest arbitrary: pre)
  case Nil
  then show ?case by simp
next
  case (Cons entry rest)
  obtain k dict where entry: "entry = (k, dict)" by (cases entry)
  with Cons.prems obtain n where k: "k = IndexKey n"
    by (cases k) (auto simp: is_index_key_def)
  from Cons.prems entry have ld: "loaded_dict B dict" by simp
  from Cons.prems(2) entry have new: "k \<notin> fst ` set pre" by auto
  then have none: "map_of pre k = None" by (simp add: map_of_eq_None_iff)
  have sec: "load_section B dict ([], logs) = Inr (dict, logs)"
    using load_section_rebuild [of B "[]" dict logs] ld by simp
  have step: "load_sections B ((dump_key k, JObj dict) # doc) (editor\<lparr>settings := pre\<rparr>, logs)
      = load_sections B doc (editor\<lparr>settings := pre @ [(k, dict)]\<rparr>, logs)" for doc
    using none sec new
    by (simp add: k dump_key_def lower_string_of_nat section_key_index update_append_new)
  have "load_sections B (map (\<lambda>(k, dict). (dump_key k, JObj dict)) rest @ tail)
           (editor\<lparr>settings := pre @ [(k, dict)]\<rparr>, logs)
        = load_sections B tail (editor\<lparr>settings := (pre @ [(k, dict)]) @ rest\<rparr>, logs)"
    using Cons.prems entry by (intro Cons.IH) simp_all
  with step entry show ?case by simp
qed

lemma load_sections_timeline:
  "load_sections B (case rows of None \<Rightarrow> [] | Some r \<Rightarrow> [(ID_TIMELINE_CHANGES, r)]) (editor, logs)
     = Inr (editor, logs)"
  by (cases rows) (simp_all add: section_key_types)

lemma from_json_export_json:
  assumes "loaded_editor B editor"
  shows "\<exists>doc. export_json editor ch = Inr doc \<and> from_json B doc = Inr (editor, [])"
proof -
  from assms obtain dv da rest where s: "settings editor =
      (TypeKey ID_VIDEO_STREAM, dv) # (TypeKey ID_AUDIO_STREAM, da) # rest"
    and idx: "list_all (\<lambda>(k, dict). is_index_key k) rest"
    and dist: "distinct (map fst rest)"
    and ld: "loaded_dict B dv" "loaded_dict B da" "list_all (\<lambda>(k, dict). loaded_dict B dict) rest"
    by (auto simp: loaded_editor_def split: list.splits)
  let ?tail = "case changes_rows ch of None \<Rightarrow> [] | Some r \<Rightarrow> [(ID_TIMELINE_CHANGES, r)]"
  let ?doc = "map (\<lambda>(k, dict). (dump_key k, JObj dict)) (settings editor) @ ?tail"
  have "TypeKey ID_TIMELINE_CHANGES \<notin> fst ` set rest"
    using idx by (rule index_keys_no_type)
  then have notin: "TypeKey ID_TIMELINE_CHANGES \<notin> fst ` set (settings editor)"
    using s by (simp add: ID_TIMELINE_CHANGES_def ID_VIDEO_STREAM_def ID_AUDIO_STREAM_def)
  then have ex: "export_json editor ch = Inr ?doc"
    by (simp add: export_json_def)
  have sv: "load_section B dv ([], logs) = Inr (dv, logs)"
    and sa: "load_section B da ([], logs) = Inr (da, logs)" for logs
    using load_section_rebuild [of B "[]" dv logs] load_section_rebuild [of B "[]" da logs] ld
    by simp_all
  let ?pre = "[(TypeKey ID_VIDEO_STREAM, dv), (TypeKey ID_AUDIO_STREAM, da)]"
  have all: "list_all (\<lambda>(k, dict). is_index_key k \<and> loaded_dict B dict) rest"
    using idx ld(3) by (auto simp: list_all_iff)
  have dist': "distinct (map fst (?pre @ rest))"
    using dist video_neq_audio index_keys_no_type [OF idx, of ID_VIDEO_STREAM]
      index_keys_no_type [OF idx, of ID_AUDIO_STREAM] by simp
  have init: "new_Editor None None =
      editor\<lparr>settings := [(TypeKey ID_VIDEO_STREAM, []), (TypeKey ID_AUDIO_STREAM, [])]\<rparr>"
    by (cases editor) (simp add: new_Editor_def)
  have dk: "dump_key (TypeKey ID_VIDEO_STREAM) = ID_VIDEO_STREAM"
    "dump_key (TypeKey ID_AUDIO_STREAM) = ID_AUDIO_STREAM"
    by (simp_all add: dump_key_def)
  have "from_json B ?doc
      = load_sections B (map (\<lambda>(k, dict). (dump_key k, JObj dict)) rest @ ?tail)
          (editor\<lparr>settings := ?pre\<rparr>, [])"
    using video_neq_audio
    by (simp add: from_json_def s init dk section_key_types sv sa)
  also have "\<dots> = load_sections B ?tail (editor\<lparr>settings := ?pre @ rest\<rparr>, [])"
    using all dist' by (rule load_sections_rebuild_indices)
  also have "\<dots> = Inr (editor\<lparr>settings := ?pre @ rest\<rparr>, [])"
    by (rule load_sections_timeline)
  also have "editor\<lparr>settings := ?pre @ rest\<rparr> = editor"
    using s by simp
  finally show ?thesis using ex by blast
qed

lemmas setting_ids = ID_CODEC_def ID_CODEC_OPTIONS_def ID_BITRATE_def ID_RESOLUTION_def
  ID_MAX_FPS_def ID_SAMPLE_RATE_def ID_MONO_def

text \<open>
  What the checks of \<^verbatim>\<open>from_json\<close> do guarantee for an editor it returns: a stored
  bitrate or sample rate is a positive integer, a stored maximum frame rate is a float
  that passed the test \<^verbatim>\<open>f <= 0\<close>, and a stored resolution is a list of integers
  whose first two have a positive product.
\<close>

lemma loaded_setting_checked:
  assumes "load_setting B key v = Inr (Some v)"
  shows "(key = ID_BITRATE \<or> key = ID_SAMPLE_RATE \<longrightarrow> (\<exists>i. v = JInt i \<and> 0 < i)) \<and>
         (key = ID_MAX_FPS \<longrightarrow> (\<exists>f. v = JFloat f \<and> \<not> float_le_zero B f)) \<and>
         (key = ID_RESOLUTION \<longrightarrow>
            (\<exists>w h rest. v = JList (map JInt (w # h # rest)) \<and> 0 < w * h))"
  using assms
  by (auto simp: load_setting_def setting_ids split: sum.splits list.splits if_splits)

lemma from_json_checked:
  assumes "from_json B doc = Inr (editor, logs)"
    and "(k, dict) \<in> set (settings editor)" and "(key, v) \<in> set dict"
  shows "(key = ID_BITRATE \<or> key = ID_SAMPLE_RATE \<longrightarrow> (\<exists>i. v = JInt i \<and> 0 < i)) \<and>
         (key = ID_MAX_FPS \<longrightarrow> (\<exists>f. v = JFloat f \<and> \<not> float_le_zero B f)) \<and>
         (key = ID_RESOLUTION \<longrightarrow>
            (\<exists>w h rest. v = JList (map JInt (w # h # rest)) \<and> 0 < w * h))"
proof -
  from assms(1) have "loaded_editor B editor" by (rule from_json_loaded)
  with assms(2) have "loaded_dict B dict"
    by (auto simp: loaded_editor_def list_all_iff split: list.splits)
  with assms(3) have "load_setting B key v = Inr (Some v)"
    by (auto simp: loaded_dict_def list_all_iff)
  then show ?thesis by (rule loaded_setting_checked)
qed

text \<open>
  Claim C2 fails on the code for the resolution. The check of line 226 is on the product
  of the two dimensions, so two negative dimensions pass it: \<^verbatim>\<open>from_json\<close> returns an
  editor that keeps the resolution \<^verbatim>\<open>[-1280, -720]\<close>, and logs nothing, whatever the
  built-ins do. The message of the \<^verbatim>\<open>raise\<close> says that the resolution "must consist of
  positive numbers".
\<close>

theorem negative_resolution_is_accepted:
  "from_json B [(''video'', JObj [(''resolution'', JList [JInt (- 1280), JInt (- 720)])])]
     = Inr (\<lparr>settings =
              [(TypeKey ''video'', [(''resolution'', JList [JInt (- 1280), JInt (- 720)])]),
               (TypeKey ''audio'', [])]\<rparr>, [])"
  by (simp add: from_json_def new_Editor_def section_key_def ID_VIDEO_STREAM_def
      ID_AUDIO_STREAM_def setting_ids lower_def lower_char_def load_setting_def py_iter_def
      py_int_def)

text \<open>
  Claim C3, as stated for every editor, fails: the constructor takes any dictionaries. An
  editor made with the video settings \<^verbatim>\<open>{'bitrate': -5}\<close> is exported, and loading the
  exported document raises \<^verbatim>\<open>ValueError\<close>; one made with \<^verbatim>\<open>{'crf': 23}\<close> is exported, and
  loading the document skips the key, so the editor loaded has no video settings.
\<close>

theorem roundtrip_of_unchecked_editor_fails:
  "export_json (new_Editor (Some [(''bitrate'', JInt (- 5))]) None) (No_changes :: rat changes)
     = Inr [(''video'', JObj [(''bitrate'', JInt (- 5))]), (''audio'', JObj [])] \<and>
   from_json exact_builtins [(''video'', JObj [(''bitrate'', JInt (- 5))]), (''audio'', JObj [])]
     = Inl ValueError \<and>
   export_json (new_Editor (Some [(''crf'', JInt 23)]) None) (No_changes :: rat changes)
     = Inr [(''video'', JObj [(''crf'', JInt 23)]), (''audio'', JObj [])] \<and>
   from_json exact_builtins [(''video'', JObj [(''crf'', JInt 23)]), (''audio'', JObj [])]
     = Inr (new_Editor None None, [Warning (Unrecognized_setting ''crf'')])"
  by (simp add: export_json_def new_Editor_def dump_key_def changes_rows_def from_json_def
      section_key_def ID_VIDEO_STREAM_def ID_AUDIO_STREAM_def ID_TIMELINE_CHANGES_def
      setting_ids lower_def lower_char_def load_setting_def py_int_def)

text \<open>
  Claim C3 as amended: for every editor that \<^verbatim>\<open>from_json\<close> returned, from any document and
  with any built-ins, \<^verbatim>\<open>export_json\<close> with any interval list succeeds, and \<^verbatim>\<open>from_json\<close>
  of the exported document returns that same editor, the per-type and the per-index
  settings alike, and logs no warning.
\<close>

theorem export_json_from_json_roundtrip:
  assumes "from_json B doc = Inr (editor, logs)"
  shows "\<exists>doc'. export_json editor ch = Inr doc' \<and> from_json B doc' = Inr (editor, [])"
  using assms by (intro from_json_export_json from_json_loaded)

theorem export_json_from_json_roundtrip_witness:
  "from_json exact_builtins
     [(''Video'', JObj [(''bitrate'', JFloat 2500000), (''max-fps'', JInt 30), (''crf'', JInt 23)]),
      (''1'', JObj [(''mono'', JInt 1), (''codec'', JStr ''aac'')]),
      (''timeline-changes'', JList [])]
   = Inr (\<lparr>settings =
            [(TypeKey ''video'', [(''bitrate'', JInt 2500000), (''max-fps'', JFloat 30)]),
             (TypeKey ''audio'', []),
             (IndexKey 1, [(''mono'', JBool True), (''codec'', JStr ''aac'')])]\<rparr>,
          [Warning (Unrecognized_setting ''crf'')]) \<and>
   (\<exists>doc'.
      export_json
        \<lparr>settings =
            [(TypeKey ''video'', [(''bitrate'', JInt 2500000), (''max-fps'', JFloat 30)]),
             (TypeKey ''audio'', []),
             (IndexKey 1, [(''mono'', JBool True), (''codec'', JStr ''aac'')])]\<rparr>
        (Change_list [\<lparr>beg = 0, fin = 3, multi = 1\<rparr>]) = Inr doc' \<and>
      from_json exact_builtins doc'
        = Inr (\<lparr>settings =
            [(TypeKey ''video'', [(''bitrate'', JInt 2500000), (''max-fps'', JFloat 30)]),
             (TypeKey ''audio'', []),
             (IndexKey 1, [(''mono'', JBool True), (''codec'', JStr ''aac'')])]\<rparr>, []))"
proof -
  have loaded: "from_json exact_builtins
     [(''Video'', JObj [(''bitrate'', JFloat 2500000), (''max-fps'', JInt 30), (''crf'', JInt 23)]),
      (''1'', JObj [(''mono'', JInt 1), (''codec'', JStr ''aac'')]),
      (''timeline-changes'', JList [])]
   = Inr (\<lparr>settings =
            [(TypeKey ''video'', [(''bitrate'', JInt 2500000), (''max-fps'', JFloat 30)]),
             (TypeKey ''audio'', []),
             (IndexKey 1, [(''mono'', JBool True), (''codec'', JStr ''aac'')])]\<rparr>,
          [Warning (Unrecognized_setting ''crf'')])"
    by code_simp
  show ?thesis
    by (rule conjI, rule loaded, rule export_json_from_json_roundtrip [OF loaded])
qed

section \<open>\<^verbatim>\<open>prepare_destination\<close>\<close>

text \<open>
  What the code reads of a source stream. The values that become defaults of the settings
  are kept as the library reports them; \<^verbatim>\<open>guessed_rate\<close> is a \<^verbatim>\<open>Fraction\<close>.
  \<^verbatim>\<open>codec_context\<close> is \<^verbatim>\<open>None\<close> when no decoder is available.
\<close>

record 'f CodecContext =
  cc_name :: "'f json"
  cc_options :: "'f json"

record 'f Stream =
  stream_index :: nat
  stream_type :: string
  codec_context :: "'f CodecContext option"
  bit_rate :: "'f json"
  width :: "'f json"
  height :: "'f json"
  guessed_rate :: rat
  pix_fmt :: "'f json"
  sample_rate :: "'f json"
  channels :: "'f json"
  thread_type :: "string option"

text \<open>
  A destination stream is what the code asks of the library: the arguments of
  \<^verbatim>\<open>add_stream\<close> and the attributes assigned afterwards. \<open>None\<close> is an attribute this code
  does not set. \<open>dst_index\<close> is the stream's place among the destination's streams.
\<close>

record 'f DstStream =
  dst_index :: nat
  dst_codec_name :: "'f json"
  dst_options :: "'f json"
  dst_rate :: "'f json option"
  dst_time_base :: "rat option"
  dst_pix_fmt :: "'f json option"
  dst_bit_rate :: "'f json"
  dst_width :: "'f json option"
  dst_height :: "'f json option"
  dst_channels :: "'f json option"
  dst_thread_type :: "string option"

text \<open>
  The two context classes are in \<^verbatim>\<open>edit_context.py\<close>, which is not among the sources:
  a context is its constructor's arguments, the attribute \<^verbatim>\<open>max_fps\<close> that
  \<^verbatim>\<open>prepare_destination\<close> writes, and the rest of the object's state, of a type \<open>'s\<close> the
  model does not look into.
\<close>

datatype ('f, 's) EditCtx =
    VideoEditContext (src_stream: "'f Stream") (dst_stream: "'f DstStream") (max_fps: rat)
      (ctx_state: 's)
  | AudioEditContext (src_stream: "'f Stream") (dst_stream: "'f DstStream") (ctx_state: 's)

text \<open>
  The parameters of provisioning: the built-ins, the state a context's constructor sets
  up from its arguments (the maximum frame rate for a video context), and the time base
  a destination stream has once \<^verbatim>\<open>start_encoding\<close> has run.
\<close>

record ('f, 's) provisioner =
  builtins_of :: "'f builtins"
  new_state :: "'f Stream \<Rightarrow> 'f DstStream \<Rightarrow> rat option \<Rightarrow> 's"
  negotiated :: "'f DstStream \<Rightarrow> rat option"

text \<open>\<^verbatim>\<open>d.get(key, default)\<close> and \<^verbatim>\<open>d.update(other)\<close> on dictionaries.\<close>

definition dict_get :: "('k \<times> 'v) list \<Rightarrow> 'k \<Rightarrow> 'v \<Rightarrow> 'v" where
  "dict_get d key dflt = (case map_of d key of None \<Rightarrow> dflt | Some v \<Rightarrow> v)"

definition dict_update :: "('k \<times> 'v) list \<Rightarrow> ('k \<times> 'v) list \<Rightarrow> ('k \<times> 'v) list" where
  "dict_update d other = fold (\<lambda>(key, v). AList.update key v) other d"

text \<open>
  Lines 118-126: the streams of a supported type that have a decoder, in the source's
  order, and a warning for each of the others.
\<close>

fun select_streams :: "'f Stream list \<Rightarrow> 'f Stream list \<times> log_record list" where
  "select_streams [] = ([], [])"
| "select_streams (stream # streams) =
     (let (valid_streams, logs) = select_streams streams in
      if stream_type stream \<in> set SUPPORTED_STREAM_TYPES then
        if codec_context stream \<noteq> None then (stream # valid_streams, logs)
        else (valid_streams, Warning (Skipping_no_decoder (stream_index stream)) # logs)
      else (valid_streams,
            Warning (Skipping_not_supported (stream_index stream) (stream_type stream)) # logs))"

text \<open>
  Lines 130-131: the settings of the stream's type, copied, then updated with the settings
  of the stream's index.
\<close>

definition merged_settings :: "'f Editor \<Rightarrow> 'f Stream \<Rightarrow> 'f stream_settings" where
  "merged_settings editor src =
     dict_update (dict_get (settings editor) (TypeKey (stream_type src)) [])
       (dict_get (settings editor) (IndexKey (stream_index src)) [])"

text \<open>\<^verbatim>\<open>a, b = v\<close>: \<open>v\<close> must be iterable and give exactly two values.\<close>

definition unpack2 :: "'f json \<Rightarrow> pyerr + 'f json \<times> 'f json" where
  "unpack2 v =
     (case py_iter v of
        Inl e \<Rightarrow> Inl e
      | Inr [a, b] \<Rightarrow> Inr (a, b)
      | Inr _ \<Rightarrow> Inl ValueError)"

text \<open>
  Lines 133-146, the video branch: the context made for source stream \<open>src\<close> when the
  destination already has \<open>n\<close> streams. The two \<^verbatim>\<open>thread_type\<close> assignments of lines
  161-162 come after the constructor call and are seen through the context's references.
\<close>

definition provision_video ::
  "('f, 's) provisioner \<Rightarrow> 'f Editor \<Rightarrow> nat \<Rightarrow> 'f Stream \<Rightarrow> pyerr + ('f, 's) EditCtx" where
  "provision_video P editor n src =
     (let stream_conf = merged_settings editor src in
      case codec_context src of
        None \<Rightarrow> Inl AttributeError
      | Some cc \<Rightarrow>
          (let codec = dict_get stream_conf ID_CODEC (cc_name cc);
               codec_options = dict_get stream_conf ID_CODEC_OPTIONS (cc_options cc);
               bitrate = dict_get stream_conf ID_BITRATE (bit_rate src);
               resolution = dict_get stream_conf ID_RESOLUTION (JList [width src, height src])
           in case (case map_of stream_conf ID_MAX_FPS of
                      None \<Rightarrow> Inr (guessed_rate src)
                    | Some v \<Rightarrow> py_Fraction (builtins_of P) v) of
                Inl e \<Rightarrow> Inl e
              | Inr fps \<Rightarrow>
                  (case unpack2 resolution of
                     Inl e \<Rightarrow> Inl e
                   | Inr (w, h) \<Rightarrow>
                       (let dst = \<lparr>dst_index = n, dst_codec_name = codec,
                                   dst_options = codec_options, dst_rate = None,
                                   dst_time_base = Some (1 / 60000),
                                   dst_pix_fmt = Some (pix_fmt src), dst_bit_rate = bitrate,
                                   dst_width = Some w, dst_height = Some h,
                                   dst_channels = None, dst_thread_type = None\<rparr>
                        in Inr (VideoEditContext
                                  (src\<lparr>thread_type := Some ''AUTO''\<rparr>)
                                  (dst\<lparr>dst_thread_type := Some ''AUTO''\<rparr>)
                                  fps (new_state P src dst (Some fps)))))))"

text \<open>Lines 148-159, the audio branch.\<close>

definition provision_audio ::
  "('f, 's) provisioner \<Rightarrow> 'f Editor \<Rightarrow> nat \<Rightarrow> 'f Stream \<Rightarrow> pyerr + ('f, 's) EditCtx" where
  "provision_audio P editor n src =
     (let stream_conf = merged_settings editor src in
      case codec_context src of
        None \<Rightarrow> Inl AttributeError
      | Some cc \<Rightarrow>
          (let codec = dict_get stream_conf ID_CODEC (cc_name cc);
               codec_options = dict_get stream_conf ID_CODEC_OPTIONS (cc_options cc);
               bitrate = dict_get stream_conf ID_BITRATE (bit_rate src);
               rate = dict_get stream_conf ID_SAMPLE_RATE (sample_rate src);
               chans = (if py_bool (builtins_of P) (dict_get stream_conf ID_MONO (JBool False))
                        then JInt 1 else channels src);
               dst = \<lparr>dst_index = n, dst_codec_name = codec, dst_options = codec_options,
                       dst_rate = Some rate, dst_time_base = None, dst_pix_fmt = None,
                       dst_bit_rate = bitrate, dst_width = None, dst_height = None,
                       dst_channels = Some chans, dst_thread_type = None\<rparr>
           in Inr (AudioEditContext
                     (src\<lparr>thread_type := Some ''AUTO''\<rparr>)
                     (dst\<lparr>dst_thread_type := Some ''AUTO''\<rparr>)
                     (new_state P src dst None))))"

text \<open>
  The loop of lines 128-162 over the valid streams, with the destination's streams and
  the context map so far. A stream of neither type makes no context; line 162 then
  reads the variable \<^verbatim>\<open>dst_stream\<close>, which is unbound if no stream was added before.
  (The valid streams are of the two types, so this branch is never taken.)
\<close>

fun provision_streams ::
  "('f, 's) provisioner \<Rightarrow> 'f Editor \<Rightarrow> 'f Stream list
     \<Rightarrow> 'f DstStream list \<times> (nat \<times> ('f, 's) EditCtx) list
     \<Rightarrow> pyerr + 'f DstStream list \<times> (nat \<times> ('f, 's) EditCtx) list" where
  "provision_streams P editor [] (dsts, ctx_map) = Inr (dsts, ctx_map)"
| "provision_streams P editor (src # valid_streams) (dsts, ctx_map) =
     (if stream_type src = ID_VIDEO_STREAM then
        (case provision_video P editor (length dsts) src of
           Inl e \<Rightarrow> Inl e
         | Inr ctx \<Rightarrow>
             provision_streams P editor valid_streams
               (dsts @ [dst_stream ctx], AList.update (stream_index src) ctx ctx_map))
      else if stream_type src = ID_AUDIO_STREAM then
        (case provision_audio P editor (length dsts) src of
           Inl e \<Rightarrow> Inl e
         | Inr ctx \<Rightarrow>
             provision_streams P editor valid_streams
               (dsts @ [dst_stream ctx], AList.update (stream_index src) ctx ctx_map))
      else if dsts = [] then Inl NameError
      else provision_streams P editor valid_streams (dsts, ctx_map))"

text \<open>
  \<^verbatim>\<open>dst.start_encoding()\<close>: every destination stream has its negotiated time base from
  now on, also when read through a context.
\<close>

definition start_encoding_stream :: "('f, 's) provisioner \<Rightarrow> 'f DstStream \<Rightarrow> 'f DstStream" where
  "start_encoding_stream P dst = dst\<lparr>dst_time_base := negotiated P dst\<rparr>"

definition start_encoding_ctx :: "('f, 's) provisioner \<Rightarrow> ('f, 's) EditCtx \<Rightarrow> ('f, 's) EditCtx" where
  "start_encoding_ctx P ctx =
     (case ctx of
        VideoEditContext src dst fps st \<Rightarrow> VideoEditContext src (start_encoding_stream P dst) fps st
      | AudioEditContext src dst st \<Rightarrow> AudioEditContext src (start_encoding_stream P dst) st)"

text \<open>
  Lines 166-171 for one context: \<^verbatim>\<open>1 / time_base\<close> raises on \<^verbatim>\<open>None\<close> and on zero;
  a maximum frame rate above it is lowered to it, with a warning. The warning names the
  index of the stream the variable \<^verbatim>\<open>dst_stream\<close> was left at by the loop before, given
  here as \<open>last_index\<close> (\<open>None\<close> if that loop added no stream).
\<close>

definition limit_max_fps ::
  "nat option \<Rightarrow> ('f, 's) EditCtx \<Rightarrow> pyerr + ('f, 's) EditCtx \<times> log_record list" where
  "limit_max_fps last_index ctx =
     (case ctx of
        AudioEditContext src dst st \<Rightarrow> Inr (ctx, [])
      | VideoEditContext src dst fps st \<Rightarrow>
          (case dst_time_base dst of
             None \<Rightarrow> Inl TypeError
           | Some tb \<Rightarrow>
               if tb = 0 then Inl ZeroDivisionError
               else (let possible_fps = 1 / tb in
                     if possible_fps < fps
                     then (case last_index of
                             None \<Rightarrow> Inl NameError
                           | Some i \<Rightarrow>
                               Inr (VideoEditContext src dst possible_fps st,
                                    [Warning (Low_time_base i fps possible_fps)]))
                     else Inr (ctx, []))))"

fun limit_all ::
  "nat option \<Rightarrow> (nat \<times> ('f, 's) EditCtx) list
     \<Rightarrow> pyerr + (nat \<times> ('f, 's) EditCtx) list \<times> log_record list" where
  "limit_all last_index [] = Inr ([], [])"
| "limit_all last_index ((idx, ctx) # ctx_map) =
     (case limit_max_fps last_index ctx of
        Inl e \<Rightarrow> Inl e
      | Inr (ctx', logs) \<Rightarrow>
          (case limit_all last_index ctx_map of
             Inl e \<Rightarrow> Inl e
           | Inr (ctx_map', logs') \<Rightarrow> Inr ((idx, ctx') # ctx_map', logs @ logs')))"

text \<open>
  The whole of \<^verbatim>\<open>prepare_destination\<close>, given the streams of the source: the destination's
  streams, the context map and what was logged.
\<close>

definition prepare_destination ::
  "('f, 's) provisioner \<Rightarrow> 'f Editor \<Rightarrow> 'f Stream list
     \<Rightarrow> pyerr + 'f DstStream list \<times> (nat \<times> ('f, 's) EditCtx) list \<times> log_record list" where
  "prepare_destination P editor streams =
     (let (valid_streams, skipped) = select_streams streams in
      case provision_streams P editor valid_streams ([], []) of
        Inl e \<Rightarrow> Inl e
      | Inr (dsts, ctx_map) \<Rightarrow>
          (case limit_all (if dsts = [] then None else Some (dst_index (last dsts)))
                  (map (\<lambda>(idx, ctx). (idx, start_encoding_ctx P ctx)) ctx_map) of
             Inl e \<Rightarrow> Inl e
           | Inr (ctx_map', logs) \<Rightarrow>
               Inr (map (start_encoding_stream P) dsts, ctx_map', skipped @ logs)))"

text \<open>
  A provisioner and a source for evaluating the model: the contexts keep no state of
  their own, and the library gives every video stream the time base 1/25 and every other
  stream the time base 1/44100. The source has a video stream, an audio stream, a
  subtitle stream and an audio stream without a decoder.
\<close>

definition coarse_provisioner :: "(rat, unit) provisioner" where
  "coarse_provisioner =
     \<lparr>builtins_of = exact_builtins,
      new_state = (\<lambda>src dst fps. ()),
      negotiated = (\<lambda>dst. if dst_width dst \<noteq> None then Some (1 / 25)
                           else Some (1 / 44100))\<rparr>"

definition example_video :: "rat Stream" where
  "example_video =
     \<lparr>stream_index = 0, stream_type = ''video'',
      codec_context = Some \<lparr>cc_name = JStr ''h264'', cc_options = JObj []\<rparr>,
      bit_rate = JInt 4000000, width = JInt 1920, height = JInt 1080, guessed_rate = 30,
      pix_fmt = JStr ''yuv420p'', sample_rate = JNull, channels = JNull,
      thread_type = None\<rparr>"

definition example_audio :: "rat Stream" where
  "example_audio =
     \<lparr>stream_index = 1, stream_type = ''audio'',
      codec_context = Some \<lparr>cc_name = JStr ''mp3'', cc_options = JObj []\<rparr>,
      bit_rate = JInt 128000, width = JNull, height = JNull, guessed_rate = 0,
      pix_fmt = JNull, sample_rate = JInt 44100, channels = JInt 2, thread_type = None\<rparr>"

definition example_subtitle :: "rat Stream" where
  "example_subtitle =
     \<lparr>stream_index = 2, stream_type = ''subtitle'',
      codec_context = Some \<lparr>cc_name = JStr ''srt'', cc_options = JObj []\<rparr>,
      bit_rate = JNull, width = JNull, height = JNull, guessed_rate = 0,
      pix_fmt = JNull, sample_rate = JNull, channels = JNull, thread_type = None\<rparr>"

definition example_undecodable :: "rat Stream" where
  "example_undecodable =
     \<lparr>stream_index = 3, stream_type = ''audio'', codec_context = None,
      bit_rate = JNull, width = JNull, height = JNull, guessed_rate = 0,
      pix_fmt = JNull, sample_rate = JNull, channels = JNull, thread_type = None\<rparr>"

definition example_editor :: "rat Editor" where
  "example_editor =
     \<lparr>settings =
        [(TypeKey ''video'', [(''bitrate'', JInt 2500000), (''max-fps'', JFloat 30)]),
         (TypeKey ''audio'', [(''codec'', JStr ''opus''), (''sample-rate'', JInt 48000)]),
         (IndexKey 1, [(''mono'', JBool True), (''codec'', JStr ''aac'')])]\<rparr>"

definition example_source :: "rat Stream list" where
  "example_source = [example_video, example_audio, example_subtitle, example_undecodable]"

section \<open>Properties of \<^verbatim>\<open>prepare_destination\<close>\<close>

text \<open>
  The precedence the specification describes, in its words: the value under a key is
  taken from the settings of the stream's index when the key is there, otherwise from the
  settings of the stream's type when the key is there, otherwise there is none and the
  source stream's own value is used.
\<close>

definition by_precedence :: "'f Editor \<Rightarrow> 'f Stream \<Rightarrow> string \<Rightarrow> 'f json option" where
  "by_precedence editor src key =
     (case map_of (dict_get (settings editor) (IndexKey (stream_index src)) []) key of
        Some v \<Rightarrow> Some v
      | None \<Rightarrow> map_of (dict_get (settings editor) (TypeKey (stream_type src)) []) key)"

definition or_else :: "'a option \<Rightarrow> 'a \<Rightarrow> 'a" where
  "or_else found source_value = (case found of Some v \<Rightarrow> v | None \<Rightarrow> source_value)"

lemma map_of_dict_update:
  "distinct (map fst other) \<Longrightarrow> map_of (dict_update d other) = map_of d ++ map_of other"
  unfolding dict_update_def
proof (induction other arbitrary: d)
  case Nil
  show ?case by simp
next
  case (Cons kv other)
  obtain k v where kv: "kv = (k, v)" by (cases kv)
  with Cons.prems have "map_of other k = None" "distinct (map fst other)"
    by (auto simp: map_of_eq_None_iff)
  with kv show ?case
    by (auto simp: Cons.IH update_conv' map_add_def fun_eq_iff split: option.splits)
qed

text \<open>A dictionary has each key once.\<close>

definition index_settings_are_dict :: "'f Editor \<Rightarrow> 'f Stream \<Rightarrow> bool" where
  "index_settings_are_dict editor src =
     distinct (map fst (dict_get (settings editor) (IndexKey (stream_index src)) []))"

lemma map_of_merged_settings:
  "index_settings_are_dict editor src
     \<Longrightarrow> map_of (merged_settings editor src) key = by_precedence editor src key"
  by (simp add: merged_settings_def map_of_dict_update by_precedence_def map_add_def
      index_settings_are_dict_def split: option.splits)

lemma dict_get_merged_settings:
  "index_settings_are_dict editor src
     \<Longrightarrow> dict_get (merged_settings editor src) key source_value
         = or_else (by_precedence editor src key) source_value"
  by (simp add: dict_get_def or_else_def map_of_merged_settings)

lemma provision_video_fields:
  assumes "provision_video P editor n src = Inr ctx" "codec_context src = Some cc"
    and "index_settings_are_dict editor src"
  shows "dst_codec_name (dst_stream ctx) = or_else (by_precedence editor src ID_CODEC) (cc_name cc)"
    and "dst_options (dst_stream ctx)
           = or_else (by_precedence editor src ID_CODEC_OPTIONS) (cc_options cc)"
    and "dst_bit_rate (dst_stream ctx) = or_else (by_precedence editor src ID_BITRATE) (bit_rate src)"
    and "\<exists>w h. dst_width (dst_stream ctx) = Some w \<and> dst_height (dst_stream ctx) = Some h \<and>
           unpack2 (or_else (by_precedence editor src ID_RESOLUTION)
                      (JList [width src, height src])) = Inr (w, h)"
    and "(case by_precedence editor src ID_MAX_FPS of
            Some v \<Rightarrow> py_Fraction (builtins_of P) v
          | None \<Rightarrow> Inr (guessed_rate src)) = Inr (max_fps ctx)"
  using assms
  by (auto simp: provision_video_def Let_def dict_get_merged_settings map_of_merged_settings
      split: sum.splits option.splits)

lemma provision_audio_fields:
  assumes "provision_audio P editor n src = Inr ctx" "codec_context src = Some cc"
    and "index_settings_are_dict editor src"
  shows "dst_codec_name (dst_stream ctx) = or_else (by_precedence editor src ID_CODEC) (cc_name cc)"
    and "dst_options (dst_stream ctx)
           = or_else (by_precedence editor src ID_CODEC_OPTIONS) (cc_options cc)"
    and "dst_bit_rate (dst_stream ctx) = or_else (by_precedence editor src ID_BITRATE) (bit_rate src)"
    and "dst_rate (dst_stream ctx)
           = Some (or_else (by_precedence editor src ID_SAMPLE_RATE) (sample_rate src))"
    and "dst_channels (dst_stream ctx)
           = Some (if py_bool (builtins_of P) (or_else (by_precedence editor src ID_MONO) (JBool False))
                   then JInt 1 else channels src)"
  using assms
  by (auto simp: provision_audio_def Let_def dict_get_merged_settings)

lemma provision_streams_other_index:
  "provision_streams P editor valid (dsts, ctx_map) = Inr (dsts', ctx_map')
     \<Longrightarrow> k \<notin> stream_index ` set valid \<Longrightarrow> map_of ctx_map' k = map_of ctx_map k"
proof (induction valid arbitrary: dsts ctx_map)
  case Nil
  then show ?case by simp
next
  case (Cons src valid)
  from Cons.prems(2) have k: "k \<noteq> stream_index src" "k \<notin> stream_index ` set valid" by auto
  show ?case
  proof (cases "stream_type src = ID_VIDEO_STREAM")
    case True
    with Cons.prems(1) obtain ctx where
      "provision_streams P editor valid
         (dsts @ [dst_stream ctx], AList.update (stream_index src) ctx ctx_map)
       = Inr (dsts', ctx_map')"
      by (auto split: sum.splits)
    from Cons.IH [OF this k(2)] k(1) show ?thesis by (simp add: update_conv')
  next
    case False
    show ?thesis
    proof (cases "stream_type src = ID_AUDIO_STREAM")
      case True
      with False Cons.prems(1) obtain ctx where
        "provision_streams P editor valid
           (dsts @ [dst_stream ctx], AList.update (stream_index src) ctx ctx_map)
         = Inr (dsts', ctx_map')"
        by (auto split: sum.splits)
      from Cons.IH [OF this k(2)] k(1) show ?thesis by (simp add: update_conv')
    next
      case neither: False
      with False Cons.prems(1) have
        "provision_streams P editor valid (dsts, ctx_map) = Inr (dsts', ctx_map')"
        by (auto split: if_splits)
      from Cons.IH [OF this k(2)] show ?thesis .
    qed
  qed
qed

lemma provision_streams_lookup:
  assumes "provision_streams P editor valid (dsts, ctx_map) = Inr (dsts', ctx_map')"
    and "src \<in> set valid" and "distinct (map stream_index valid)"
    and "stream_type src \<in> set SUPPORTED_STREAM_TYPES"
  shows "\<exists>n ctx. map_of ctx_map' (stream_index src) = Some ctx \<and>
           (if stream_type src = ID_VIDEO_STREAM then provision_video P editor n src = Inr ctx
            else provision_audio P editor n src = Inr ctx)"
  using assms
proof (induction valid arbitrary: dsts ctx_map)
  case Nil
  then show ?case by simp
next
  case (Cons s valid)
  show ?case
  proof (cases "src = s")
    case True
    from Cons.prems(3) have notin: "stream_index s \<notin> stream_index ` set valid" by auto
    from Cons.prems(4) True have ty: "stream_type s = ID_VIDEO_STREAM \<or> stream_type s = ID_AUDIO_STREAM"
      by (simp add: SUPPORTED_STREAM_TYPES_def)
    from Cons.prems(1) ty obtain ctx where
      ctx: "if stream_type s = ID_VIDEO_STREAM then provision_video P editor (length dsts) s = Inr ctx
            else provision_audio P editor (length dsts) s = Inr ctx"
      and rest: "provision_streams P editor valid
         (dsts @ [dst_stream ctx], AList.update (stream_index s) ctx ctx_map)
       = Inr (dsts', ctx_map')"
      by (auto split: sum.splits if_splits)
    from provision_streams_other_index [OF rest notin]
    have "map_of ctx_map' (stream_index s) = Some ctx" by (simp add: update_conv')
    with ctx True show ?thesis by blast
  next
    case False
    with Cons.prems(2) have mem: "src \<in> set valid" by simp
    from Cons.prems(3) have dist: "distinct (map stream_index valid)" by simp
    from Cons.prems(1) obtain dsts1 cm1 where
      "provision_streams P editor valid (dsts1, cm1) = Inr (dsts', ctx_map')"
      by (auto split: sum.splits if_splits)
    from Cons.IH [OF this mem dist Cons.prems(4)] show ?thesis .
  qed
qed

definition eligible :: "'f Stream \<Rightarrow> bool" where
  "eligible stream =
     (stream_type stream \<in> set SUPPORTED_STREAM_TYPES \<and> codec_context stream \<noteq> None)"

lemma select_streams_valid: "fst (select_streams streams) = filter eligible streams"
  by (induction streams) (auto simp: eligible_def split: prod.splits)

lemma limit_max_fps_result:
  assumes "limit_max_fps last_index (start_encoding_ctx P ctx0) = Inr (ctx, logs)"
  shows "src_stream ctx = src_stream ctx0"
    and "dst_stream ctx = start_encoding_stream P (dst_stream ctx0)"
    and "ctx_state ctx = ctx_state ctx0"
    and "is_VideoEditContext ctx = is_VideoEditContext ctx0"
    and "is_VideoEditContext ctx0 \<Longrightarrow>
           \<exists>tb. negotiated P (dst_stream ctx0) = Some tb \<and> tb \<noteq> 0 \<and>
                max_fps ctx = min (max_fps ctx0) (1 / tb) \<and>
                (if 1 / tb < max_fps ctx0
                 then \<exists>i. last_index = Some i \<and>
                          logs = [Warning (Low_time_base i (max_fps ctx0) (1 / tb))]
                 else logs = [])"
  using assms
  by (cases ctx0;
      auto simp: limit_max_fps_def start_encoding_ctx_def start_encoding_stream_def Let_def
        split: option.splits if_splits)+

lemma limit_all_related:
  "limit_all last_index ctx_map0 = Inr (ctx_map, logs) \<Longrightarrow>
     list_all2 (\<lambda>(idx0, ctx0) (idx, ctx). idx = idx0 \<and>
        (\<exists>l. limit_max_fps last_index ctx0 = Inr (ctx, l) \<and> set l \<subseteq> set logs))
       ctx_map0 ctx_map"
proof (induction ctx_map0 arbitrary: ctx_map logs)
  case Nil
  then show ?case by simp
next
  case (Cons entry ctx_map0)
  obtain idx ctx0 where entry: "entry = (idx, ctx0)" by (cases entry)
  with Cons.prems obtain ctx l cm' logs' where
    one: "limit_max_fps last_index ctx0 = Inr (ctx, l)"
    and rest: "limit_all last_index ctx_map0 = Inr (cm', logs')"
    and res: "ctx_map = (idx, ctx) # cm'" "logs = l @ logs'"
    by (auto split: sum.splits)
  have "list_all2 (\<lambda>(idx0, ctx0) (idx, ctx). idx = idx0 \<and>
        (\<exists>l. limit_max_fps last_index ctx0 = Inr (ctx, l) \<and> set l \<subseteq> set logs'))
       ctx_map0 cm'"
    using rest by (rule Cons.IH)
  then have "list_all2 (\<lambda>(idx0, ctx0) (idx, ctx). idx = idx0 \<and>
        (\<exists>l. limit_max_fps last_index ctx0 = Inr (ctx, l) \<and> set l \<subseteq> set logs))
       ctx_map0 cm'"
    by (rule list_all2_mono) (use res in auto)
  with one res entry show ?case by auto
qed

lemma related_lookup:
  "list_all2 (\<lambda>(idx0, ctx0) (idx, ctx). idx = idx0 \<and> R ctx0 ctx) ctx_map0 ctx_map
     \<Longrightarrow> map_of ctx_map0 k = Some ctx0
     \<Longrightarrow> \<exists>ctx. map_of ctx_map k = Some ctx \<and> R ctx0 ctx"
  by (induction ctx_map0 ctx_map rule: list_all2_induct) (auto split: if_splits)

lemma related_member:
  "list_all2 (\<lambda>(idx0, ctx0) (idx, ctx). idx = idx0 \<and> R ctx0 ctx) ctx_map0 ctx_map
     \<Longrightarrow> (k, ctx) \<in> set ctx_map
     \<Longrightarrow> \<exists>ctx0. (k, ctx0) \<in> set ctx_map0 \<and> R ctx0 ctx"
  by (induction ctx_map0 ctx_map rule: list_all2_induct) auto

lemma prepare_destination_stages:
  assumes "prepare_destination P editor streams = Inr (dsts, ctx_map, logs)"
  obtains dsts0 ctx_map0 logs' where
    "provision_streams P editor (fst (select_streams streams)) ([], []) = Inr (dsts0, ctx_map0)"
    "limit_all (if dsts0 = [] then None else Some (dst_index (last dsts0)))
       (map (\<lambda>(idx, ctx). (idx, start_encoding_ctx P ctx)) ctx_map0) = Inr (ctx_map, logs')"
    "dsts = map (start_encoding_stream P) dsts0"
    "logs = snd (select_streams streams) @ logs'"
  using assms
  by (auto simp: prepare_destination_def split: prod.splits sum.splits)

lemma length_update_le: "length (AList.update k v al) \<le> Suc (length al)"
  by (induction al) auto

lemma provision_streams_lengths:
  "provision_streams P editor valid (dsts, ctx_map) = Inr (dsts', ctx_map')
     \<Longrightarrow> length ctx_map \<le> length dsts \<Longrightarrow> length ctx_map' \<le> length dsts'"
proof (induction valid arbitrary: dsts ctx_map)
  case Nil
  then show ?case by simp
next
  case (Cons src valid)
  from Cons.prems(1) consider
    (added) ctx where "provision_streams P editor valid
         (dsts @ [dst_stream ctx], AList.update (stream_index src) ctx ctx_map)
       = Inr (dsts', ctx_map')"
    | (skipped) "provision_streams P editor valid (dsts, ctx_map) = Inr (dsts', ctx_map')"
    by (auto split: sum.splits if_splits)
  then show ?case
  proof cases
    case added
    have "length (AList.update (stream_index src) ctx ctx_map) \<le> length (dsts @ [dst_stream ctx])"
      using Cons.prems(2) length_update_le [of "stream_index src" ctx ctx_map] by simp
    with added show ?thesis by (rule Cons.IH)
  next
    case skipped
    then show ?thesis using Cons.prems(2) by (rule Cons.IH)
  qed
qed

lemma limit_all_succeeds:
  assumes "\<forall>(idx, ctx) \<in> set ctx_map. is_VideoEditContext ctx \<longrightarrow>
             (\<exists>tb. dst_time_base (dst_stream ctx) = Some tb \<and> tb \<noteq> 0)"
    and "last_index = None \<longrightarrow> ctx_map = []"
  shows "\<exists>ctx_map' logs. limit_all last_index ctx_map = Inr (ctx_map', logs)"
  using assms
proof (induction ctx_map)
  case Nil
  then show ?case by simp
next
  case (Cons entry ctx_map)
  obtain idx ctx where entry: "entry = (idx, ctx)" by (cases entry)
  from Cons.prems(2) obtain i where i: "last_index = Some i" by auto
  with Cons.prems(1) have "\<exists>ctx_map' logs. limit_all last_index ctx_map = Inr (ctx_map', logs)"
    by (intro Cons.IH) auto
  moreover have "\<exists>ctx' l. limit_max_fps last_index ctx = Inr (ctx', l)"
    using Cons.prems(1) entry i
    by (cases ctx) (auto simp: limit_max_fps_def Let_def)
  ultimately show ?case using entry by auto
qed



text \<open>
  The settings of a video stream can be used when the maximum frame rate converts to a
  \<^verbatim>\<open>Fraction\<close> and the resolution unpacks into two values; an audio stream's always can.
\<close>

definition settings_usable :: "('f, 's) provisioner \<Rightarrow> 'f Editor \<Rightarrow> 'f Stream \<Rightarrow> bool" where
  "settings_usable P editor src =
     (stream_type src \<noteq> ID_VIDEO_STREAM \<or>
      (\<not> isl (case map_of (merged_settings editor src) ID_MAX_FPS of
                 None \<Rightarrow> Inr (guessed_rate src)
               | Some v \<Rightarrow> py_Fraction (builtins_of P) v) \<and>
       \<not> isl (unpack2 (dict_get (merged_settings editor src) ID_RESOLUTION
                         (JList [width src, height src])))))"

lemma provision_streams_succeeds:
  assumes "\<forall>src \<in> set valid. eligible src \<and> settings_usable P editor src"
  shows "\<exists>dsts' ctx_map'. provision_streams P editor valid (dsts, ctx_map) = Inr (dsts', ctx_map') \<and>
           fst ` set ctx_map' = fst ` set ctx_map \<union> stream_index ` set valid \<and>
           length dsts' = length dsts + length valid"
  using assms
proof (induction valid arbitrary: dsts ctx_map)
  case Nil
  then show ?case by simp
next
  case (Cons src valid)
  from Cons.prems obtain cc where cc: "codec_context src = Some cc"
    and ty: "stream_type src = ID_VIDEO_STREAM \<or> stream_type src = ID_AUDIO_STREAM"
    and usable: "settings_usable P editor src"
    by (auto simp: eligible_def SUPPORTED_STREAM_TYPES_def)
  have "\<exists>ctx. (if stream_type src = ID_VIDEO_STREAM
               then provision_video P editor (length dsts) src
               else provision_audio P editor (length dsts) src) = Inr ctx"
  proof (cases "stream_type src = ID_VIDEO_STREAM")
    case True
    with usable cc show ?thesis
      by (auto simp: settings_usable_def provision_video_def Let_def isl_def
          split: sum.splits option.splits)
  next
    case False
    with cc show ?thesis by (simp add: provision_audio_def Let_def)
  qed
  then obtain ctx where ctx: "(if stream_type src = ID_VIDEO_STREAM
               then provision_video P editor (length dsts) src
               else provision_audio P editor (length dsts) src) = Inr ctx" ..
  from Cons.prems have "\<forall>src \<in> set valid. eligible src \<and> settings_usable P editor src" by simp
  from Cons.IH [OF this, of "dsts @ [dst_stream ctx]"
      "AList.update (stream_index src) ctx ctx_map"]
  obtain dsts' ctx_map' where
    "provision_streams P editor valid
       (dsts @ [dst_stream ctx], AList.update (stream_index src) ctx ctx_map)
     = Inr (dsts', ctx_map')"
    "fst ` set ctx_map' = fst ` set (AList.update (stream_index src) ctx ctx_map)
        \<union> stream_index ` set valid"
    "length dsts' = length (dsts @ [dst_stream ctx]) + length valid"
    by blast
  with ctx ty show ?case
    by (auto simp: dom_update split: if_splits)
qed

text \<open>
  Claim C1. Let \<^verbatim>\<open>prepare_destination\<close> return, for a source whose streams have distinct
  indices, and let \<open>src\<close> be a stream of it of a supported type with a decoder (the
  per-index settings being a dictionary). Then the context map has a context for the
  stream's index, and every setting of its destination stream is the value found by
  precedence: under the key in the per-index settings, otherwise under the key in the
  per-type settings, otherwise the source stream's own value. This holds for the codec,
  the codec options and the bitrate, for the resolution (unpacked into width and height)
  and the maximum frame rate (converted to a fraction, and then limited by the time base,
  see C6) of a video stream, and for the sample rate and the mono flag (one channel when
  it is true, the source's channels otherwise) of an audio stream.
\<close>

theorem settings_resolved_by_precedence:
  assumes "prepare_destination P editor streams = Inr (dsts, ctx_map, logs)"
    and "distinct (map stream_index streams)"
    and "src \<in> set streams" and "stream_type src \<in> set SUPPORTED_STREAM_TYPES"
    and "codec_context src = Some cc"
    and "index_settings_are_dict editor src"
  shows "\<exists>ctx. map_of ctx_map (stream_index src) = Some ctx \<and>
     dst_codec_name (dst_stream ctx) = or_else (by_precedence editor src ID_CODEC) (cc_name cc) \<and>
     dst_options (dst_stream ctx)
       = or_else (by_precedence editor src ID_CODEC_OPTIONS) (cc_options cc) \<and>
     dst_bit_rate (dst_stream ctx) = or_else (by_precedence editor src ID_BITRATE) (bit_rate src) \<and>
     (if stream_type src = ID_VIDEO_STREAM
      then (\<exists>w h. dst_width (dst_stream ctx) = Some w \<and> dst_height (dst_stream ctx) = Some h \<and>
              unpack2 (or_else (by_precedence editor src ID_RESOLUTION)
                         (JList [width src, height src])) = Inr (w, h)) \<and>
           (\<exists>fps tb.
              (case by_precedence editor src ID_MAX_FPS of
                 Some v \<Rightarrow> py_Fraction (builtins_of P) v
               | None \<Rightarrow> Inr (guessed_rate src)) = Inr fps \<and>
              dst_time_base (dst_stream ctx) = Some tb \<and> max_fps ctx = min fps (1 / tb))
      else dst_rate (dst_stream ctx)
             = Some (or_else (by_precedence editor src ID_SAMPLE_RATE) (sample_rate src)) \<and>
           dst_channels (dst_stream ctx)
             = Some (if py_bool (builtins_of P)
                          (or_else (by_precedence editor src ID_MONO) (JBool False))
                     then JInt 1 else channels src))"
proof -
  from assms(1) obtain dsts0 ctx_map0 logs' where
    prov: "provision_streams P editor (fst (select_streams streams)) ([], [])
             = Inr (dsts0, ctx_map0)"
    and lim: "limit_all (if dsts0 = [] then None else Some (dst_index (last dsts0)))
       (map (\<lambda>(idx, ctx). (idx, start_encoding_ctx P ctx)) ctx_map0) = Inr (ctx_map, logs')"
    by (rule prepare_destination_stages)
  let ?valid = "filter eligible streams"
  have mem: "src \<in> set ?valid" using assms(3-5) by (simp add: eligible_def)
  have dist: "distinct (map stream_index ?valid)"
    using assms(2) by (rule distinct_map_filter)
  from provision_streams_lookup [OF prov [unfolded select_streams_valid] mem dist assms(4)]
  obtain n ctx0 where look0: "map_of ctx_map0 (stream_index src) = Some ctx0"
    and made: "if stream_type src = ID_VIDEO_STREAM then provision_video P editor n src = Inr ctx0
               else provision_audio P editor n src = Inr ctx0"
    by blast
  from look0 have "map_of (map (\<lambda>(idx, ctx). (idx, start_encoding_ctx P ctx)) ctx_map0)
      (stream_index src) = Some (start_encoding_ctx P ctx0)"
    by (simp add: map_of_map)
  from related_lookup [OF limit_all_related [OF lim] this]
  obtain ctx l where look: "map_of ctx_map (stream_index src) = Some ctx"
    and one: "limit_max_fps (if dsts0 = [] then None else Some (dst_index (last dsts0)))
                (start_encoding_ctx P ctx0) = Inr (ctx, l)"
    by blast
  note res = limit_max_fps_result [OF one]
  have dst: "dst_codec_name (dst_stream ctx) = dst_codec_name (dst_stream ctx0)"
    "dst_options (dst_stream ctx) = dst_options (dst_stream ctx0)"
    "dst_bit_rate (dst_stream ctx) = dst_bit_rate (dst_stream ctx0)"
    "dst_width (dst_stream ctx) = dst_width (dst_stream ctx0)"
    "dst_height (dst_stream ctx) = dst_height (dst_stream ctx0)"
    "dst_rate (dst_stream ctx) = dst_rate (dst_stream ctx0)"
    "dst_channels (dst_stream ctx) = dst_channels (dst_stream ctx0)"
    "dst_time_base (dst_stream ctx) = negotiated P (dst_stream ctx0)"
    by (simp_all add: res(2) start_encoding_stream_def)
  show ?thesis
  proof (cases "stream_type src = ID_VIDEO_STREAM")
    case True
    with made have pv: "provision_video P editor n src = Inr ctx0" by simp
    then have "is_VideoEditContext ctx0"
      by (auto simp: provision_video_def Let_def split: option.splits sum.splits)
    from res(5) [OF this] obtain tb where
      tb: "negotiated P (dst_stream ctx0) = Some tb" "max_fps ctx = min (max_fps ctx0) (1 / tb)"
      by blast
    from provision_video_fields [OF pv assms(5,6)] dst tb look True
    show ?thesis by auto
  next
    case False
    with made have "provision_audio P editor n src = Inr ctx0" by simp
    from provision_audio_fields [OF this assms(5,6)] dst look False
    show ?thesis by simp
  qed
qed

lemma related_keys:
  "list_all2 (\<lambda>(idx0, ctx0) (idx, ctx). idx = idx0 \<and> R ctx0 ctx) ctx_map0 ctx_map
     \<Longrightarrow> map fst ctx_map = map fst ctx_map0"
  by (induction ctx_map0 ctx_map rule: list_all2_induct) auto

lemma map_fst_start_encoding:
  "map fst (map (\<lambda>(idx, ctx). (idx, start_encoding_ctx P ctx)) ctx_map) = map fst ctx_map"
  by (induction ctx_map) auto

lemma limit_stage_succeeds:
  assumes prov: "provision_streams P editor valid ([], []) = Inr (dsts0, ctx_map0)"
    and tb: "\<forall>dst. \<exists>tb. negotiated P dst = Some tb \<and> tb \<noteq> 0"
  shows "\<exists>ctx_map logs. limit_all (if dsts0 = [] then None else Some (dst_index (last dsts0)))
           (map (\<lambda>(idx, ctx). (idx, start_encoding_ctx P ctx)) ctx_map0) = Inr (ctx_map, logs)"
proof (rule limit_all_succeeds)
  show "\<forall>(idx, ctx) \<in> set (map (\<lambda>(idx, ctx). (idx, start_encoding_ctx P ctx)) ctx_map0).
          is_VideoEditContext ctx \<longrightarrow> (\<exists>tb. dst_time_base (dst_stream ctx) = Some tb \<and> tb \<noteq> 0)"
  proof (clarsimp)
    fix idx ctx0
    assume "is_VideoEditContext (start_encoding_ctx P ctx0)"
    then show "\<exists>tb. dst_time_base (dst_stream (start_encoding_ctx P ctx0)) = Some tb \<and> tb \<noteq> 0"
      using tb by (cases ctx0) (auto simp: start_encoding_ctx_def start_encoding_stream_def)
  qed
  have "length ctx_map0 \<le> length dsts0"
    using prov by (rule provision_streams_lengths) simp
  then show "(if dsts0 = [] then None else Some (dst_index (last dsts0))) = None
      \<longrightarrow> map (\<lambda>(idx, ctx). (idx, start_encoding_ctx P ctx)) ctx_map0 = []"
    by auto
qed

lemma prepare_destination_succeeds:
  assumes "\<forall>src \<in> set streams. eligible src \<longrightarrow> settings_usable P editor src"
    and tb: "\<forall>dst. \<exists>tb. negotiated P dst = Some tb \<and> tb \<noteq> 0"
  shows "\<exists>dsts0 ctx_map0 ctx_map logs.
           provision_streams P editor (fst (select_streams streams)) ([], [])
             = Inr (dsts0, ctx_map0) \<and>
           prepare_destination P editor streams
             = Inr (map (start_encoding_stream P) dsts0, ctx_map,
                    snd (select_streams streams) @ logs) \<and>
           map fst ctx_map = map fst ctx_map0 \<and>
           fst ` set ctx_map0 = stream_index ` {src \<in> set streams. eligible src} \<and>
           length dsts0 = length (filter eligible streams)"
proof -
  let ?valid = "filter eligible streams"
  have "\<forall>src \<in> set ?valid. eligible src \<and> settings_usable P editor src"
    using assms(1) by simp
  from provision_streams_succeeds [OF this, of "[]" "[]"]
  obtain dsts0 ctx_map0 where
    prov: "provision_streams P editor ?valid ([], []) = Inr (dsts0, ctx_map0)"
    and keys: "fst ` set ctx_map0 = stream_index ` set ?valid"
    and len: "length dsts0 = length ?valid"
    by auto
  from limit_stage_succeeds [OF prov tb] obtain ctx_map logs where
    lim: "limit_all (if dsts0 = [] then None else Some (dst_index (last dsts0)))
           (map (\<lambda>(idx, ctx). (idx, start_encoding_ctx P ctx)) ctx_map0) = Inr (ctx_map, logs)"
    by blast
  have "map fst ctx_map = map fst ctx_map0"
    using related_keys [OF limit_all_related [OF lim]] unfolding map_fst_start_encoding .
  moreover have "prepare_destination P editor streams
      = Inr (map (start_encoding_stream P) dsts0, ctx_map, snd (select_streams streams) @ logs)"
    using prov lim select_streams_valid [of streams]
    by (cases "select_streams streams") (simp add: prepare_destination_def)
  moreover have "stream_index ` set ?valid = stream_index ` {src \<in> set streams. eligible src}"
    by auto
  ultimately show ?thesis using prov keys len
    by (auto simp: select_streams_valid)
qed

text \<open>
  Claim C6. First: once the streams are provisioned and the library has given each
  destination stream a time base that is not zero, \<^verbatim>\<open>prepare_destination\<close> returns, with
  the same contexts under the same indices, and each video context has as its maximum
  frame rate the smaller of the rate it was provisioned with and \<open>1 / time_base\<close>; when
  the provisioned rate was the larger, a warning about it was logged. Second: whenever
  \<^verbatim>\<open>prepare_destination\<close> returns, every video context of the map it returns has a
  maximum frame rate of at most \<open>1 / time_base\<close> of its destination stream.
\<close>

theorem max_fps_limited_by_time_base:
  "(provision_streams P editor (fst (select_streams streams)) ([], []) = Inr (dsts0, ctx_map0) \<and>
      (\<forall>dst. \<exists>tb. negotiated P dst = Some tb \<and> tb \<noteq> 0) \<longrightarrow>
    (\<exists>ctx_map' logs'.
       prepare_destination P editor streams
         = Inr (map (start_encoding_stream P) dsts0, ctx_map', logs') \<and>
       list_all2
         (\<lambda>(idx0, ctx0) (idx, ctx). idx = idx0 \<and>
            is_VideoEditContext ctx = is_VideoEditContext ctx0 \<and>
            (is_VideoEditContext ctx0 \<longrightarrow>
               (\<exists>tb. dst_time_base (dst_stream ctx) = Some tb \<and> tb \<noteq> 0 \<and>
                  max_fps ctx = min (max_fps ctx0) (1 / tb) \<and>
                  (1 / tb < max_fps ctx0 \<longrightarrow>
                     (\<exists>i. Warning (Low_time_base i (max_fps ctx0) (1 / tb)) \<in> set logs')))))
         ctx_map0 ctx_map')) \<and>
   (prepare_destination P editor streams = Inr (dsts, ctx_map, logs) \<and>
      (idx, ctx) \<in> set ctx_map \<and> is_VideoEditContext ctx \<longrightarrow>
    (\<exists>tb. dst_time_base (dst_stream ctx) = Some tb \<and> tb \<noteq> 0 \<and> max_fps ctx \<le> 1 / tb))"
proof (intro conjI impI; (elim conjE)?)
  assume prov: "provision_streams P editor (fst (select_streams streams)) ([], [])
      = Inr (dsts0, ctx_map0)"
    and tb: "\<forall>dst. \<exists>tb. negotiated P dst = Some tb \<and> tb \<noteq> 0"
  let ?li = "if dsts0 = [] then None else Some (dst_index (last dsts0))"
  let ?started = "map (\<lambda>(idx, ctx). (idx, start_encoding_ctx P ctx)) ctx_map0"
  from limit_stage_succeeds [OF prov tb] obtain ctx_map' logs' where
    lim: "limit_all ?li ?started = Inr (ctx_map', logs')"
    by blast
  have res: "prepare_destination P editor streams
      = Inr (map (start_encoding_stream P) dsts0, ctx_map', snd (select_streams streams) @ logs')"
    using prov lim by (cases "select_streams streams") (simp add: prepare_destination_def)
  have rel: "list_all2 (\<lambda>(idx0, ctx0) (idx, ctx). idx = idx0 \<and>
        (\<exists>l. limit_max_fps ?li ctx0 = Inr (ctx, l) \<and> set l \<subseteq> set logs')) ?started ctx_map'"
    using lim by (rule limit_all_related)
  have "list_all2
         (\<lambda>(idx0, ctx0) (idx, ctx). idx = idx0 \<and>
            is_VideoEditContext ctx = is_VideoEditContext ctx0 \<and>
            (is_VideoEditContext ctx0 \<longrightarrow>
               (\<exists>tb. dst_time_base (dst_stream ctx) = Some tb \<and> tb \<noteq> 0 \<and>
                  max_fps ctx = min (max_fps ctx0) (1 / tb) \<and>
                  (1 / tb < max_fps ctx0 \<longrightarrow>
                     (\<exists>i. Warning (Low_time_base i (max_fps ctx0) (1 / tb))
                        \<in> set (snd (select_streams streams) @ logs'))))))
         ctx_map0 ctx_map'"
    unfolding list_all2_conv_all_nth
  proof (intro conjI allI impI)
    show "length ctx_map0 = length ctx_map'"
      using rel by (simp add: list_all2_conv_all_nth)
  next
    fix k assume k: "k < length ctx_map0"
    obtain idx0 ctx0 where e0: "ctx_map0 ! k = (idx0, ctx0)" by (cases "ctx_map0 ! k")
    obtain idx ctx where e: "ctx_map' ! k = (idx, ctx)" by (cases "ctx_map' ! k")
    from rel k e0 e obtain l where idx: "idx = idx0"
      and one: "limit_max_fps ?li (start_encoding_ctx P ctx0) = Inr (ctx, l)"
      and sub: "set l \<subseteq> set logs'"
      by (auto simp: list_all2_conv_all_nth dest!: spec [of _ k])
    note r = limit_max_fps_result [OF one]
    have "is_VideoEditContext ctx0 \<longrightarrow>
               (\<exists>tb. dst_time_base (dst_stream ctx) = Some tb \<and> tb \<noteq> 0 \<and>
                  max_fps ctx = min (max_fps ctx0) (1 / tb) \<and>
                  (1 / tb < max_fps ctx0 \<longrightarrow>
                     (\<exists>i. Warning (Low_time_base i (max_fps ctx0) (1 / tb))
                        \<in> set (snd (select_streams streams) @ logs'))))"
    proof
      assume "is_VideoEditContext ctx0"
      from r(5) [OF this] obtain tb where
        t: "negotiated P (dst_stream ctx0) = Some tb" "tb \<noteq> 0"
          "max_fps ctx = min (max_fps ctx0) (1 / tb)"
          "if 1 / tb < max_fps ctx0
           then \<exists>i. ?li = Some i \<and> l = [Warning (Low_time_base i (max_fps ctx0) (1 / tb))]
           else l = []"
        by blast
      have "dst_time_base (dst_stream ctx) = Some tb"
        using r(2) t(1) by (simp add: start_encoding_stream_def)
      moreover have "1 / tb < max_fps ctx0 \<longrightarrow>
          (\<exists>i. Warning (Low_time_base i (max_fps ctx0) (1 / tb))
                  \<in> set (snd (select_streams streams) @ logs'))"
        using t(4) sub by (auto split: if_splits)
      ultimately show "\<exists>tb. dst_time_base (dst_stream ctx) = Some tb \<and> tb \<noteq> 0 \<and>
                  max_fps ctx = min (max_fps ctx0) (1 / tb) \<and>
                  (1 / tb < max_fps ctx0 \<longrightarrow>
                     (\<exists>i. Warning (Low_time_base i (max_fps ctx0) (1 / tb))
                        \<in> set (snd (select_streams streams) @ logs')))"
        using t(2,3) by blast
    qed
    with idx r(4) e0 e
    show "(case ctx_map0 ! k of (idx0, ctx0) \<Rightarrow> \<lambda>(idx, ctx). idx = idx0 \<and>
            is_VideoEditContext ctx = is_VideoEditContext ctx0 \<and>
            (is_VideoEditContext ctx0 \<longrightarrow>
               (\<exists>tb. dst_time_base (dst_stream ctx) = Some tb \<and> tb \<noteq> 0 \<and>
                  max_fps ctx = min (max_fps ctx0) (1 / tb) \<and>
                  (1 / tb < max_fps ctx0 \<longrightarrow>
                     (\<exists>i. Warning (Low_time_base i (max_fps ctx0) (1 / tb))
                        \<in> set (snd (select_streams streams) @ logs'))))))
          (ctx_map' ! k)"
      by simp
  qed
  with res show "\<exists>ctx_map' logs'.
       prepare_destination P editor streams
         = Inr (map (start_encoding_stream P) dsts0, ctx_map', logs') \<and>
       list_all2
         (\<lambda>(idx0, ctx0) (idx, ctx). idx = idx0 \<and>
            is_VideoEditContext ctx = is_VideoEditContext ctx0 \<and>
            (is_VideoEditContext ctx0 \<longrightarrow>
               (\<exists>tb. dst_time_base (dst_stream ctx) = Some tb \<and> tb \<noteq> 0 \<and>
                  max_fps ctx = min (max_fps ctx0) (1 / tb) \<and>
                  (1 / tb < max_fps ctx0 \<longrightarrow>
                     (\<exists>i. Warning (Low_time_base i (max_fps ctx0) (1 / tb)) \<in> set logs')))))
         ctx_map0 ctx_map'"
    by blast
next
  assume ret: "prepare_destination P editor streams = Inr (dsts, ctx_map, logs)"
    and mem: "(idx, ctx) \<in> set ctx_map" and video: "is_VideoEditContext ctx"
  from ret obtain dsts0 ctx_map0 logs' where
    "provision_streams P editor (fst (select_streams streams)) ([], []) = Inr (dsts0, ctx_map0)"
    and lim: "limit_all (if dsts0 = [] then None else Some (dst_index (last dsts0)))
       (map (\<lambda>(idx, ctx). (idx, start_encoding_ctx P ctx)) ctx_map0) = Inr (ctx_map, logs')"
    by (rule prepare_destination_stages)
  from related_member [OF limit_all_related [OF lim] mem]
  obtain started l where
    "(idx, started) \<in> set (map (\<lambda>(idx, ctx). (idx, start_encoding_ctx P ctx)) ctx_map0)"
    and one: "limit_max_fps (if dsts0 = [] then None else Some (dst_index (last dsts0))) started
                = Inr (ctx, l)"
    by blast
  then obtain ctx0 where started: "started = start_encoding_ctx P ctx0" by auto
  note r = limit_max_fps_result [OF one [unfolded started]]
  from r(4) video have "is_VideoEditContext ctx0" by simp
  from r(5) [OF this] obtain tb where
    "negotiated P (dst_stream ctx0) = Some tb" "tb \<noteq> 0"
    "max_fps ctx = min (max_fps ctx0) (1 / tb)"
    by blast
  then show "\<exists>tb. dst_time_base (dst_stream ctx) = Some tb \<and> tb \<noteq> 0 \<and> max_fps ctx \<le> 1 / tb"
    using r(2) by (simp add: start_encoding_stream_def)
qed

subsection \<open>The theorems on the example source\<close>

lemma example_usable:
  "\<forall>src \<in> set example_source.
     eligible src \<longrightarrow> settings_usable coarse_provisioner example_editor src"
  by code_simp

lemma example_time_bases:
  "\<forall>dst. \<exists>tb. negotiated coarse_provisioner dst = Some tb \<and> tb \<noteq> 0"
proof
  fix dst :: "rat DstStream"
  show "\<exists>tb. negotiated coarse_provisioner dst = Some tb \<and> tb \<noteq> 0"
    by (rule exI [of _ "if dst_width dst \<noteq> None then 1 / 25 else 1 / 44100"])
       (simp add: coarse_provisioner_def)
qed

theorem settings_resolved_by_precedence_witness:
  "\<exists>dsts ctx_map logs.
     prepare_destination coarse_provisioner example_editor example_source
       = Inr (dsts, ctx_map, logs) \<and>
     distinct (map stream_index example_source) \<and>
     example_audio \<in> set example_source \<and>
     stream_type example_audio \<in> set SUPPORTED_STREAM_TYPES \<and>
     codec_context example_audio = Some \<lparr>cc_name = JStr ''mp3'', cc_options = JObj []\<rparr> \<and>
     index_settings_are_dict example_editor example_audio \<and>
     (\<exists>ctx. map_of ctx_map 1 = Some ctx \<and>
        dst_codec_name (dst_stream ctx) = JStr ''aac'' \<and>
        dst_options (dst_stream ctx) = JObj [] \<and>
        dst_bit_rate (dst_stream ctx) = JInt 128000 \<and>
        dst_rate (dst_stream ctx) = Some (JInt 48000) \<and>
        dst_channels (dst_stream ctx) = Some (JInt 1))"
proof -
  from prepare_destination_succeeds [OF example_usable example_time_bases]
  obtain dsts ctx_map logs where
    ret: "prepare_destination coarse_provisioner example_editor example_source
            = Inr (dsts, ctx_map, logs)"
    by blast
  have h: "distinct (map stream_index example_source)"
    "example_audio \<in> set example_source"
    "stream_type example_audio \<in> set SUPPORTED_STREAM_TYPES"
    "codec_context example_audio = Some \<lparr>cc_name = JStr ''mp3'', cc_options = JObj []\<rparr>"
    "index_settings_are_dict example_editor example_audio"
    by code_simp+
  have ev: "stream_index example_audio = 1"
    "stream_type example_audio \<noteq> ID_VIDEO_STREAM"
    "or_else (by_precedence example_editor example_audio ID_CODEC) (JStr ''mp3'') = JStr ''aac''"
    "or_else (by_precedence example_editor example_audio ID_CODEC_OPTIONS) (JObj []) = JObj []"
    "or_else (by_precedence example_editor example_audio ID_BITRATE) (bit_rate example_audio)
       = JInt 128000"
    "or_else (by_precedence example_editor example_audio ID_SAMPLE_RATE)
       (sample_rate example_audio) = JInt 48000"
    "py_bool (builtins_of coarse_provisioner)
       (or_else (by_precedence example_editor example_audio ID_MONO) (JBool False))"
    by code_simp+
  from settings_resolved_by_precedence [OF ret h] obtain ctx where
    "map_of ctx_map (stream_index example_audio) = Some ctx \<and>
     dst_codec_name (dst_stream ctx)
       = or_else (by_precedence example_editor example_audio ID_CODEC)
           (cc_name \<lparr>cc_name = JStr ''mp3'', cc_options = JObj []\<rparr>) \<and>
     dst_options (dst_stream ctx)
       = or_else (by_precedence example_editor example_audio ID_CODEC_OPTIONS)
           (cc_options \<lparr>cc_name = JStr ''mp3'', cc_options = JObj []\<rparr>) \<and>
     dst_bit_rate (dst_stream ctx)
       = or_else (by_precedence example_editor example_audio ID_BITRATE) (bit_rate example_audio) \<and>
     dst_rate (dst_stream ctx)
       = Some (or_else (by_precedence example_editor example_audio ID_SAMPLE_RATE)
                 (sample_rate example_audio)) \<and>
     dst_channels (dst_stream ctx)
       = Some (if py_bool (builtins_of coarse_provisioner)
                    (or_else (by_precedence example_editor example_audio ID_MONO) (JBool False))
               then JInt 1 else channels example_audio)"
    using ev(2) by auto
  then have "map_of ctx_map 1 = Some ctx \<and>
        dst_codec_name (dst_stream ctx) = JStr ''aac'' \<and>
        dst_options (dst_stream ctx) = JObj [] \<and>
        dst_bit_rate (dst_stream ctx) = JInt 128000 \<and>
        dst_rate (dst_stream ctx) = Some (JInt 48000) \<and>
        dst_channels (dst_stream ctx) = Some (JInt 1)"
    using ev by simp
  with ret h show ?thesis by blast
qed

definition example_video_dst :: "rat DstStream" where
  "example_video_dst =
     \<lparr>dst_index = 0, dst_codec_name = JStr ''h264'', dst_options = JObj [], dst_rate = None,
      dst_time_base = Some (1 / 60000), dst_pix_fmt = Some (JStr ''yuv420p''),
      dst_bit_rate = JInt 2500000, dst_width = Some (JInt 1920),
      dst_height = Some (JInt 1080), dst_channels = None,
      dst_thread_type = Some ''AUTO''\<rparr>"

theorem max_fps_limited_by_time_base_witness:
  "provision_streams coarse_provisioner example_editor (fst (select_streams [example_video]))
       ([], [])
     = Inr ([example_video_dst],
            [(0, VideoEditContext (example_video\<lparr>thread_type := Some ''AUTO''\<rparr>)
                   example_video_dst 30 ())]) \<and>
   (\<exists>ctx_map' logs'.
       prepare_destination coarse_provisioner example_editor [example_video]
         = Inr (map (start_encoding_stream coarse_provisioner) [example_video_dst],
                ctx_map', logs') \<and>
       list_all2
         (\<lambda>(idx0, ctx0) (idx, ctx). idx = idx0 \<and>
            is_VideoEditContext ctx = is_VideoEditContext ctx0 \<and>
            (is_VideoEditContext ctx0 \<longrightarrow>
               (\<exists>tb. dst_time_base (dst_stream ctx) = Some tb \<and> tb \<noteq> 0 \<and>
                  max_fps ctx = min (max_fps ctx0) (1 / tb) \<and>
                  (1 / tb < max_fps ctx0 \<longrightarrow>
                     (\<exists>i. Warning (Low_time_base i (max_fps ctx0) (1 / tb)) \<in> set logs')))))
         [(0, VideoEditContext (example_video\<lparr>thread_type := Some ''AUTO''\<rparr>)
                example_video_dst 30 ())]
         ctx_map') \<and>
   prepare_destination coarse_provisioner example_editor [example_video]
     = Inr ([example_video_dst\<lparr>dst_time_base := Some (1 / 25)\<rparr>],
            [(0, VideoEditContext (example_video\<lparr>thread_type := Some ''AUTO''\<rparr>)
                   (example_video_dst\<lparr>dst_time_base := Some (1 / 25)\<rparr>) 25 ())],
            [Warning (Low_time_base 0 30 25)]) \<and>
   (\<exists>tb. dst_time_base (example_video_dst\<lparr>dst_time_base := Some (1 / 25)\<rparr>) = Some tb \<and>
      tb \<noteq> 0 \<and> (25 :: rat) \<le> 1 / tb)"
proof -
  let ?provisioned = "VideoEditContext (example_video\<lparr>thread_type := Some ''AUTO''\<rparr>)
                 example_video_dst 30 ()"
  let ?limited = "VideoEditContext (example_video\<lparr>thread_type := Some ''AUTO''\<rparr>)
                (example_video_dst\<lparr>dst_time_base := Some (1 / 25)\<rparr>) 25 ()"
  have prov: "provision_streams coarse_provisioner example_editor
      (fst (select_streams [example_video])) ([], [])
     = Inr ([example_video_dst], [(0, ?provisioned)])"
    by code_simp
  have ret: "prepare_destination coarse_provisioner example_editor [example_video]
     = Inr ([example_video_dst\<lparr>dst_time_base := Some (1 / 25)\<rparr>], [(0, ?limited)],
            [Warning (Low_time_base 0 30 25)])"
    by code_simp
  have mem: "(0, ?limited) \<in> set [(0, ?limited)]" "is_VideoEditContext ?limited" by simp_all
  note inst = max_fps_limited_by_time_base [of coarse_provisioner example_editor
      "[example_video]" "[example_video_dst]" "[(0, ?provisioned)]"
      "[example_video_dst\<lparr>dst_time_base := Some (1 / 25)\<rparr>]" "[(0, ?limited)]"
      "[Warning (Low_time_base 0 30 25)]" 0 "?limited"]
  from inst prov example_time_bases have first: "\<exists>ctx_map' logs'.
       prepare_destination coarse_provisioner example_editor [example_video]
         = Inr (map (start_encoding_stream coarse_provisioner) [example_video_dst],
                ctx_map', logs') \<and>
       list_all2
         (\<lambda>(idx0, ctx0) (idx, ctx). idx = idx0 \<and>
            is_VideoEditContext ctx = is_VideoEditContext ctx0 \<and>
            (is_VideoEditContext ctx0 \<longrightarrow>
               (\<exists>tb. dst_time_base (dst_stream ctx) = Some tb \<and> tb \<noteq> 0 \<and>
                  max_fps ctx = min (max_fps ctx0) (1 / tb) \<and>
                  (1 / tb < max_fps ctx0 \<longrightarrow>
                     (\<exists>i. Warning (Low_time_base i (max_fps ctx0) (1 / tb)) \<in> set logs')))))
         [(0, ?provisioned)] ctx_map'"
    by blast
  from inst ret mem have "\<exists>tb. dst_time_base (dst_stream ?limited) = Some tb \<and> tb \<noteq> 0 \<and>
      max_fps ?limited \<le> 1 / tb"
    by blast
  then have second: "\<exists>tb. dst_time_base (example_video_dst\<lparr>dst_time_base := Some (1 / 25)\<rparr>)
        = Some tb \<and> tb \<noteq> 0 \<and> (25 :: rat) \<le> 1 / tb"
    by simp
  from prov first ret second show ?thesis by (intro conjI)
qed

section \<open>\<^verbatim>\<open>edit\<close>\<close>

text \<open>
  A packet the source yields belongs to a stream; the rest of it, like a packet for the
  destination (of a type \<open>'q\<close>), is not looked into.
\<close>

record 'a Packet =
  pkt_stream :: nat
  pkt_data :: 'a

text \<open>
  The methods of a context (\<^verbatim>\<open>edit_context.py\<close>, not among the sources) are parameters.
  Each reads the context and gives the state the object is left in; \<^verbatim>\<open>is_done\<close> is read
  off the context; \<^verbatim>\<open>TimelineChange.from_numpy\<close> turns the rows of an array into
  changes. They are taken to return.
\<close>

record ('f, 's, 'a, 'q) ctx_methods =
  seek_beginning :: "('f, 's) EditCtx \<Rightarrow> 's"
  prepare_for_editing :: "'f changes \<Rightarrow> ('f, 's) EditCtx \<Rightarrow> bool \<times> 's"
  is_done :: "('f, 's) EditCtx \<Rightarrow> bool"
  decode_edit_encode :: "'a Packet \<Rightarrow> ('f, 's) EditCtx \<Rightarrow> 'q list \<times> 's"
  from_numpy :: "'f list list \<Rightarrow> 'f TimelineChange list"

definition with_state :: "'s \<Rightarrow> ('f, 's) EditCtx \<Rightarrow> ('f, 's) EditCtx" where
  "with_state st ctx =
     (case ctx of
        VideoEditContext src dst fps _ \<Rightarrow> VideoEditContext src dst fps st
      | AudioEditContext src dst _ \<Rightarrow> AudioEditContext src dst st)"

text \<open>
  What the files and the library answer: the absolute form of a path, the streams of the
  container at a path, the time \<^verbatim>\<open>Real(first_pkt.dts * first_pkt.time_base)\<close> of the first
  packet a stream yields after a seek to its beginning (only the order of these times is
  used), and the packets \<^verbatim>\<open>source.demux\<close> yields in the main loop for the streams asked
  for. The library's calls are taken to return.
\<close>

record ('f, 'a) world =
  resolve_path :: "string \<Rightarrow> string"
  open_source :: "string \<Rightarrow> 'f Stream list"
  first_packet_time :: "nat \<Rightarrow> rat"
  demux :: "nat list \<Rightarrow> 'a Packet list"

text \<open>What \<^verbatim>\<open>edit\<close> does to the outside, in order.\<close>

datatype ('a, 'q) event =
    Log log_record
  | Open_source string
  | Open_dest string
  | Seek_beginning nat
  | Probe nat
  | Prepare nat bool
  | Demux "'a Packet"
  | Decode nat "'a Packet"
  | Mux 'q
  | Flush nat
  | Close_dest
  | Close_source

text \<open>
  Lines 66-71: every context is sought to its beginning and its stream's first packet is
  read for its time; the indices are then sorted by that time (\<^verbatim>\<open>sorted\<close> is stable).
\<close>

fun probe_all ::
  "('f, 's, 'a, 'q) ctx_methods \<Rightarrow> ('f, 'a) world \<Rightarrow> (nat \<times> ('f, 's) EditCtx) list
     \<Rightarrow> (nat \<times> ('f, 's) EditCtx) list \<times> (nat \<times> rat) list \<times> ('a, 'q) event list" where
  "probe_all M W [] = ([], [], [])"
| "probe_all M W ((idx, ctx) # ctx_map) =
     (let ctx' = with_state (seek_beginning M ctx) ctx;
          first_pkt = first_packet_time W (stream_index (src_stream ctx'));
          (ctx_map', first_pkts, events) = probe_all M W ctx_map
      in ((idx, ctx') # ctx_map', (idx, first_pkt) # first_pkts,
          Seek_beginning idx # Probe (stream_index (src_stream ctx')) # events))"

definition streams_ordered :: "(nat \<times> rat) list \<Rightarrow> nat list" where
  "streams_ordered first_pkts = map fst (sort_key snd first_pkts)"

text \<open>
  Lines 74-77: \<^verbatim>\<open>valid_streams\<close> holds the stream of every context whose
  \<^verbatim>\<open>prepare_for_editing\<close> returned true.
\<close>

fun prepare_all ::
  "('f, 's, 'a, 'q) ctx_methods \<Rightarrow> 'f changes \<Rightarrow> (nat \<times> ('f, 's) EditCtx) list
     \<Rightarrow> (nat \<times> ('f, 's) EditCtx) list \<times> (nat \<times> 'f Stream) list \<times> ('a, 'q) event list" where
  "prepare_all M chs [] = ([], [], [])"
| "prepare_all M chs ((idx, ctx) # ctx_map) =
     (let (ok, st) = prepare_for_editing M chs ctx;
          ctx' = with_state st ctx;
          (ctx_map', valid_streams, events) = prepare_all M chs ctx_map
      in ((idx, ctx') # ctx_map',
          (if ok then (idx, src_stream ctx') # valid_streams else valid_streams),
          Prepare idx ok # events))"

text \<open>
  The loop of lines 84-91 over the packets the source yields. A packet of a context that
  is done is passed over; otherwise the context turns it into destination packets, which
  are multiplexed, and the loop ends when then every context of the map is done. The
  result has the contexts, the events and the packets not taken from the source.
\<close>

fun demux_loop ::
  "('f, 's, 'a, 'q) ctx_methods \<Rightarrow> (nat \<times> ('f, 's) EditCtx) list \<Rightarrow> 'a Packet list
     \<Rightarrow> pyerr + (nat \<times> ('f, 's) EditCtx) list \<times> ('a, 'q) event list \<times> 'a Packet list" where
  "demux_loop M ctx_map [] = Inr (ctx_map, [], [])"
| "demux_loop M ctx_map (src_packet # packets) =
     (case map_of ctx_map (pkt_stream src_packet) of
        None \<Rightarrow> Inl KeyError
      | Some ctx \<Rightarrow>
          if is_done M ctx then
            (case demux_loop M ctx_map packets of
               Inl e \<Rightarrow> Inl e
             | Inr (ctx_map', events, rest) \<Rightarrow> Inr (ctx_map', Demux src_packet # events, rest))
          else
            (let (dst_packets, st) = decode_edit_encode M src_packet ctx;
                 ctx_map1 = AList.update (pkt_stream src_packet) (with_state st ctx) ctx_map;
                 step = Demux src_packet # Decode (pkt_stream src_packet) src_packet
                          # map Mux dst_packets
             in if list_all (\<lambda>(idx, c). is_done M c) ctx_map1
                then Inr (ctx_map1, step, packets)
                else (case demux_loop M ctx_map1 packets of
                        Inl e \<Rightarrow> Inl e
                      | Inr (ctx_map', events, rest) \<Rightarrow> Inr (ctx_map', step @ events, rest))))"

text \<open>
  Line 81: the first of the ordered indices that is a key of \<^verbatim>\<open>valid_streams\<close>;
  \<^verbatim>\<open>[0]\<close> of an empty list raises.
\<close>

definition first_ctx_of :: "nat list \<Rightarrow> (nat \<times> 'f Stream) list \<Rightarrow> pyerr + nat" where
  "first_ctx_of ordered valid_streams =
     (case filter (\<lambda>idx. idx \<in> fst ` set valid_streams) ordered of
        [] \<Rightarrow> Inl IndexError
      | idx # _ \<Rightarrow> Inr idx)"

text \<open>
  Lines 80-101, after the contexts were prepared: the branch taken when some stream is
  valid (the seek, the loop, the flush of every destination stream), or the warning;
  then the last message and the closing of both containers.
\<close>

definition edit_valid ::
  "('f, 's, 'a, 'q) ctx_methods \<Rightarrow> ('f, 'a) world \<Rightarrow> 'f DstStream list
     \<Rightarrow> (nat \<times> ('f, 's) EditCtx) list \<Rightarrow> nat list \<Rightarrow> (nat \<times> 'f Stream) list
     \<Rightarrow> pyerr + ('a, 'q) event list" where
  "edit_valid M W dsts ctx_map ordered valid_streams =
     (case first_ctx_of ordered valid_streams of
        Inl e \<Rightarrow> Inl e
      | Inr first_ctx \<Rightarrow>
          (case map_of ctx_map first_ctx of
             None \<Rightarrow> Inl KeyError
           | Some ctx \<Rightarrow>
               (let ctx_map1 = AList.update first_ctx (with_state (seek_beginning M ctx) ctx)
                                 ctx_map
                in case demux_loop M ctx_map1
                          (demux W (map (\<lambda>(idx, s). stream_index s) valid_streams)) of
                     Inl e \<Rightarrow> Inl e
                   | Inr (ctx_map2, events, rest) \<Rightarrow>
                       Inr (Seek_beginning first_ctx # events
                            @ map (\<lambda>dst. Flush (dst_index dst)) dsts))))"

definition edit_finish ::
  "('f, 's, 'a, 'q) ctx_methods \<Rightarrow> ('f, 'a) world \<Rightarrow> string \<Rightarrow> string \<Rightarrow> 'f DstStream list
     \<Rightarrow> (nat \<times> ('f, 's) EditCtx) list \<Rightarrow> nat list \<Rightarrow> (nat \<times> 'f Stream) list
     \<Rightarrow> pyerr + ('a, 'q) event list" where
  "edit_finish M W src_path dst_path dsts ctx_map ordered valid_streams =
     (case (if length valid_streams > 0
            then edit_valid M W dsts ctx_map ordered valid_streams
            else Inr [Log (Warning (Empty_recording src_path))]) of
        Inl e \<Rightarrow> Inl e
      | Inr events \<Rightarrow>
          Inr (events @ [Log (Info (Finished_editing src_path dst_path)),
                         Close_dest, Close_source]))"

text \<open>Line 60: an array of changes is converted, anything else is passed on as it is.\<close>

definition changes_given :: "('f, 's, 'a, 'q) ctx_methods \<Rightarrow> 'f changes \<Rightarrow> 'f changes" where
  "changes_given M ch =
     (case ch of Nd_array rows \<Rightarrow> Change_list (from_numpy M rows) | _ \<Rightarrow> ch)"

text \<open>
  The whole of \<^verbatim>\<open>edit\<close>, lines 57-101, as the sequence of its events, or the exception it
  raises.
\<close>

definition edit ::
  "('f, 's, 'a, 'q) ctx_methods \<Rightarrow> ('f, 's) provisioner \<Rightarrow> ('f, 'a) world \<Rightarrow> 'f Editor
     \<Rightarrow> string \<Rightarrow> 'f changes \<Rightarrow> string \<Rightarrow> pyerr + ('a, 'q) event list" where
  "edit M P W editor src_path0 ch dst_path0 =
     (let src_path = resolve_path W src_path0;
          chs = changes_given M ch;
          dst_path = resolve_path W dst_path0
      in case prepare_destination P editor (open_source W src_path) of
           Inl e \<Rightarrow> Inl e
         | Inr (dsts, ctx_map, logs) \<Rightarrow>
             (let (ctx_map1, first_pkts, probes) = probe_all M W ctx_map;
                  ordered = streams_ordered first_pkts;
                  (ctx_map2, valid_streams, prepared) = prepare_all M chs ctx_map1
              in case edit_finish M W src_path dst_path dsts ctx_map2 ordered valid_streams of
                   Inl e \<Rightarrow> Inl e
                 | Inr events \<Rightarrow>
                     Inr (Log (Info (Started_editing src_path0)) # Open_source src_path
                          # Open_dest dst_path # map Log logs @ probes @ prepared @ events)))"

text \<open>
  Contexts, a library and a source for evaluating \<^verbatim>\<open>edit\<close>: the state of a context is
  its \<^verbatim>\<open>is_done\<close> flag, which the constructor and \<^verbatim>\<open>prepare_for_editing\<close> leave false and
  the first packet decoded sets; only an audio context is valid for editing; a packet
  is a number and is encoded as itself. The source has the video and the audio stream
  of above; the first packet of the video stream is the earlier one; the main loop
  yields two packets of the audio stream.
\<close>

definition example_methods :: "(rat, bool, nat, nat) ctx_methods" where
  "example_methods =
     \<lparr>seek_beginning = ctx_state,
      prepare_for_editing = (\<lambda>chs ctx. (\<not> is_VideoEditContext ctx, ctx_state ctx)),
      is_done = ctx_state,
      decode_edit_encode = (\<lambda>src_packet ctx. ([pkt_data src_packet], True)),
      from_numpy = (\<lambda>rows. [])\<rparr>"

definition example_provisioner :: "(rat, bool) provisioner" where
  "example_provisioner =
     \<lparr>builtins_of = exact_builtins,
      new_state = (\<lambda>src dst fps. False),
      negotiated = (\<lambda>dst. if dst_width dst \<noteq> None then Some (1 / 25)
                           else Some (1 / 44100))\<rparr>"

definition example_world :: "(rat, nat) world" where
  "example_world =
     \<lparr>resolve_path = (\<lambda>path. ''/rec/'' @ path),
      open_source = (\<lambda>path. [example_video, example_audio]),
      first_packet_time = (\<lambda>idx. if idx = 0 then 0 else 1 / 50),
      demux = (\<lambda>idxs. filter (\<lambda>src_packet. pkt_stream src_packet \<in> set idxs)
                        [\<lparr>pkt_stream = 1, pkt_data = 7\<rparr>, \<lparr>pkt_stream = 1, pkt_data = 8\<rparr>])\<rparr>"

section \<open>Properties of \<^verbatim>\<open>edit\<close>\<close>

text \<open>
  Two kinds of events: those that move packets (taking one from the source in the main
  loop, handing it to a context, multiplexing, flushing), and those that position or
  prepare a context before the loop.
\<close>

definition transfers :: "('a, 'q) event \<Rightarrow> bool" where
  "transfers e =
     (case e of Demux _ \<Rightarrow> True | Decode _ _ \<Rightarrow> True | Mux _ \<Rightarrow> True | Flush _ \<Rightarrow> True
      | _ \<Rightarrow> False)"

definition positions :: "('a, 'q) event \<Rightarrow> bool" where
  "positions e =
     (case e of Seek_beginning _ \<Rightarrow> True | Probe _ \<Rightarrow> True | Prepare _ _ \<Rightarrow> True
      | _ \<Rightarrow> False)"

definition valid_streams_of ::
  "('f, 's, 'a, 'q) ctx_methods \<Rightarrow> ('f, 'a) world \<Rightarrow> 'f changes
     \<Rightarrow> (nat \<times> ('f, 's) EditCtx) list \<Rightarrow> (nat \<times> 'f Stream) list" where
  "valid_streams_of M W ch ctx_map =
     fst (snd (prepare_all M (changes_given M ch) (fst (probe_all M W ctx_map))))"

lemma transfers_simps [simp]:
  "\<not> transfers (Log r)" "\<not> transfers (Open_source a)" "\<not> transfers (Open_dest b)"
  "\<not> transfers (Seek_beginning i)" "\<not> transfers (Probe i)" "\<not> transfers (Prepare i ok)"
  "\<not> transfers Close_dest" "\<not> transfers Close_source"
  "transfers (Demux p)" "transfers (Decode i p)" "transfers (Mux q)" "transfers (Flush i)"
  by (simp_all add: transfers_def)

lemma positions_simps [simp]:
  "\<not> positions (Log r)" "\<not> positions (Open_source a)" "\<not> positions (Open_dest b)"
  "positions (Seek_beginning i)" "positions (Probe i)" "positions (Prepare i ok)"
  "\<not> positions Close_dest" "\<not> positions Close_source"
  "\<not> positions (Demux p)" "\<not> positions (Decode i p)" "\<not> positions (Mux q)"
  "\<not> positions (Flush i)"
  by (simp_all add: positions_def)

lemma probe_all_events:
  "list_all (\<lambda>e. \<not> transfers e) (snd (snd (probe_all M W ctx_map)))"
  by (induction ctx_map) (auto simp: Let_def split_beta)

lemma prepare_all_events:
  "list_all (\<lambda>e. \<not> transfers e) (snd (snd (prepare_all M chs ctx_map)))"
  by (induction ctx_map) (auto simp: Let_def split_beta)

lemma prepare_all_none_valid:
  "(fst (snd (prepare_all M chs ctx_map)) = [])
     = list_all (\<lambda>(idx, ctx). \<not> fst (prepare_for_editing M chs ctx)) ctx_map"
  by (induction ctx_map) (auto simp: Let_def split_beta split: if_splits)

lemma edit_unfold:
  assumes "prepare_destination P editor (open_source W (resolve_path W src_path))
             = Inr (dsts, ctx_map, logs)"
  shows "edit M P W editor src_path ch dst_path =
     (case edit_finish M W (resolve_path W src_path) (resolve_path W dst_path) dsts
             (fst (prepare_all M (changes_given M ch) (fst (probe_all M W ctx_map))))
             (streams_ordered (fst (snd (probe_all M W ctx_map))))
             (valid_streams_of M W ch ctx_map) of
        Inl e \<Rightarrow> Inl e
      | Inr events \<Rightarrow>
          Inr ((Log (Info (Started_editing src_path)) # Open_source (resolve_path W src_path)
                # Open_dest (resolve_path W dst_path) # map Log logs
                @ snd (snd (probe_all M W ctx_map))
                @ snd (snd (prepare_all M (changes_given M ch) (fst (probe_all M W ctx_map)))))
               @ events))"
  using assms
  by (simp add: edit_def Let_def valid_streams_of_def split: prod.splits sum.splits)

lemma setup_events:
  "list_all (\<lambda>e. \<not> transfers e)
     (Log (Info (Started_editing src_path)) # Open_source a # Open_dest b # map Log logs
      @ snd (snd (probe_all M W ctx_map)) @ snd (snd (prepare_all M chs ctx_map')))"
proof -
  have "list_all (\<lambda>e. \<not> transfers e) (map Log logs)"
    by (induction logs) simp_all
  then show ?thesis
    using probe_all_events [of M W ctx_map] prepare_all_events [of M chs ctx_map']
    by simp
qed

text \<open>
  Claim C7. Let the destination be prepared, and let \<^verbatim>\<open>prepare_for_editing\<close> return false
  for every context of the map. Then \<^verbatim>\<open>edit\<close> returns, and what it did is: the setup
  (opening, the provisioning messages, the probe of every context, the calls of
  \<^verbatim>\<open>prepare_for_editing\<close>), in which no packet is taken from the source for editing,
  decoded, multiplexed or flushed; then the warning, the closing message, the closing
  of the destination and the closing of the source, and nothing else.
\<close>

theorem edit_without_valid_streams:
  assumes "prepare_destination P editor (open_source W (resolve_path W src_path))
             = Inr (dsts, ctx_map, logs)"
    and "list_all (\<lambda>(idx, ctx). \<not> fst (prepare_for_editing M (changes_given M ch) ctx))
           (fst (probe_all M W ctx_map))"
  shows "\<exists>setup.
           edit M P W editor src_path ch dst_path
             = Inr (setup @
                    [Log (Warning (Empty_recording (resolve_path W src_path))),
                     Log (Info (Finished_editing (resolve_path W src_path)
                                  (resolve_path W dst_path))),
                     Close_dest, Close_source]) \<and>
           list_all (\<lambda>e. \<not> transfers e) setup"
proof -
  from assms(2) have "valid_streams_of M W ch ctx_map = []"
    by (simp add: valid_streams_of_def prepare_all_none_valid)
  then show ?thesis
    using setup_events [of src_path "resolve_path W src_path" "resolve_path W dst_path" logs
        M W ctx_map "changes_given M ch" "fst (probe_all M W ctx_map)"]
    by (simp add: edit_unfold [OF assms(1)] edit_finish_def)
qed

text \<open>The packets an event sequence took from the source in the main loop.\<close>

definition demuxed :: "('a, 'q) event list \<Rightarrow> 'a Packet list" where
  "demuxed events = concat (map (\<lambda>e. case e of Demux p \<Rightarrow> [p] | _ \<Rightarrow> []) events)"

lemma demuxed_simps [simp]:
  "demuxed [] = []"
  "demuxed (Demux p # events) = p # demuxed events"
  "demuxed (Decode i p # events) = demuxed events"
  "demuxed (map Mux qs) = []"
  "demuxed (es @ events) = demuxed es @ demuxed events"
  by (induction qs) (simp_all add: demuxed_def)

lemma demux_loop_leaves_packets:
  "demux_loop M ctx_map packets = Inr (ctx_map', events, rest)
     \<Longrightarrow> demuxed events @ rest = packets \<and>
         (rest \<noteq> [] \<longrightarrow> list_all (\<lambda>(idx, c). is_done M c) ctx_map')"
proof (induction packets arbitrary: ctx_map ctx_map' events rest)
  case Nil
  then show ?case by simp
next
  case (Cons p packets)
  from Cons.prems obtain ctx where ctx: "map_of ctx_map (pkt_stream p) = Some ctx"
    by (auto split: option.splits)
  show ?case
  proof (cases "is_done M ctx")
    case True
    with Cons.prems ctx obtain events' where
      rec: "demux_loop M ctx_map packets = Inr (ctx_map', events', rest)"
      and ev: "events = Demux p # events'"
      by (auto split: sum.splits)
    from Cons.IH [OF rec] ev show ?thesis by simp
  next
    case False
    obtain dst_packets st where dec: "decode_edit_encode M p ctx = (dst_packets, st)"
      by (cases "decode_edit_encode M p ctx")
    let ?ctx_map1 = "AList.update (pkt_stream p) (with_state st ctx) ctx_map"
    show ?thesis
    proof (cases "list_all (\<lambda>(idx, c). is_done M c) ?ctx_map1")
      case True
      with Cons.prems ctx False dec show ?thesis by auto
    next
      case not_all: False
      with Cons.prems ctx False dec obtain events' where
        rec: "demux_loop M ?ctx_map1 packets = Inr (ctx_map', events', rest)"
        and ev: "events = (Demux p # Decode (pkt_stream p) p # map Mux dst_packets) @ events'"
        by (auto split: sum.splits)
      from Cons.IH [OF rec] ev show ?thesis by simp
    qed
  qed
qed

text \<open>
  The loop of lines 84-91, one packet at a time. A packet of a context that is done is
  taken from the source and passed over: the context is not called, nothing is
  multiplexed for it, the contexts stay as they are, and the loop goes on with the next
  packet without the test of line 90. A packet of a context that is not done is decoded,
  and if then every context of the context map is done, the loop ends there and leaves
  the remaining packets in the source. Whenever the loop ends with packets left, every
  context of the map is done.
\<close>

lemma demux_loop_step:
  "(map_of ctx_map (pkt_stream p) = Some ctx \<and> is_done M ctx \<longrightarrow>
      demux_loop M ctx_map (p # packets)
        = (case demux_loop M ctx_map packets of
             Inl e \<Rightarrow> Inl e
           | Inr (ctx_map', events, rest) \<Rightarrow> Inr (ctx_map', Demux p # events, rest))) \<and>
   (map_of ctx_map (pkt_stream p) = Some ctx \<and> \<not> is_done M ctx \<and>
    list_all (\<lambda>(idx, c). is_done M c)
      (AList.update (pkt_stream p) (with_state (snd (decode_edit_encode M p ctx)) ctx) ctx_map)
    \<longrightarrow>
      demux_loop M ctx_map (p # packets)
        = Inr (AList.update (pkt_stream p) (with_state (snd (decode_edit_encode M p ctx)) ctx)
                 ctx_map,
               Demux p # Decode (pkt_stream p) p # map Mux (fst (decode_edit_encode M p ctx)),
               packets)) \<and>
   (demux_loop M ctx_map packets = Inr (ctx_map', events, rest) \<longrightarrow>
      demuxed events @ rest = packets \<and>
      (rest \<noteq> [] \<longrightarrow> list_all (\<lambda>(idx, c). is_done M c) ctx_map'))"
  using demux_loop_leaves_packets [of M ctx_map packets ctx_map' events rest]
  by (auto simp: split_beta Let_def)

lemma src_stream_with_state [simp]: "src_stream (with_state st ctx) = src_stream ctx"
  by (cases ctx) (simp_all add: with_state_def)

lemma probe_all_first_pkts:
  "fst (snd (probe_all M W ctx_map))
     = map (\<lambda>(idx, ctx). (idx, first_packet_time W (stream_index (src_stream ctx)))) ctx_map"
  by (induction ctx_map) (auto simp: Let_def split_beta)

lemma probe_all_contexts:
  "list_all2 (\<lambda>(idx0, ctx0) (idx, ctx). idx = idx0 \<and> src_stream ctx = src_stream ctx0)
     ctx_map (fst (probe_all M W ctx_map))"
  by (induction ctx_map) (auto simp: Let_def split_beta)

lemma prepare_all_valid_keys:
  "fst ` set (fst (snd (prepare_all M chs ctx_map))) \<subseteq> fst ` set ctx_map"
  by (induction ctx_map) (fastforce simp: Let_def split_beta split: if_splits)+

lemma valid_streams_of_keys:
  "fst ` set (valid_streams_of M W ch ctx_map) \<subseteq> fst ` set ctx_map"
proof -
  have "map fst (fst (probe_all M W ctx_map)) = map fst ctx_map"
    using related_keys [OF probe_all_contexts [of ctx_map M W]] .
  then have "fst ` set (fst (probe_all M W ctx_map)) = fst ` set ctx_map"
    by (metis list.set_map)
  then show ?thesis
    using prepare_all_valid_keys [of M "changes_given M ch" "fst (probe_all M W ctx_map)"]
    by (simp add: valid_streams_of_def)
qed

lemma first_ctx_of_earliest:
  assumes "first_ctx_of (streams_ordered first_pkts) valid_streams = Inr idx"
  shows "idx \<in> fst ` set valid_streams"
    and "\<exists>t. (idx, t) \<in> set first_pkts \<and>
           (\<forall>(j, tj) \<in> set first_pkts. j \<in> fst ` set valid_streams \<longrightarrow> t \<le> tj)"
proof -
  let ?P = "\<lambda>entry. fst entry \<in> fst ` set valid_streams"
  let ?ys = "filter ?P (sort_key snd first_pkts)"
  have eq: "filter (\<lambda>idx. idx \<in> fst ` set valid_streams) (streams_ordered first_pkts)
              = map fst ?ys"
    by (simp add: streams_ordered_def filter_map comp_def)
  with assms obtain entry ys' where ys: "?ys = entry # ys'" and idx: "fst entry = idx"
    by (auto simp: first_ctx_of_def split: list.splits)
  have mem: "entry \<in> set ?ys" using ys by simp
  then show "idx \<in> fst ` set valid_streams" using idx by auto
  have "sorted (map snd ?ys)"
    by (rule sorted_filter) simp
  with ys have least: "\<forall>y \<in> set ?ys. snd entry \<le> snd y" by auto
  have "(idx, snd entry) \<in> set first_pkts" using mem idx by auto
  moreover have "\<forall>(j, tj) \<in> set first_pkts. j \<in> fst ` set valid_streams \<longrightarrow> snd entry \<le> tj"
  proof -
    have "snd entry \<le> tj" if "(j, tj) \<in> set first_pkts" "j \<in> fst ` set valid_streams"
      for j tj
    proof -
      from that have "(j, tj) \<in> set ?ys" by simp
      with least show ?thesis by fastforce
    qed
    then show ?thesis by blast
  qed
  ultimately show "\<exists>t. (idx, t) \<in> set first_pkts \<and>
           (\<forall>(j, tj) \<in> set first_pkts. j \<in> fst ` set valid_streams \<longrightarrow> t \<le> tj)"
    by blast
qed

lemma demux_loop_events:
  "demux_loop M ctx_map packets = Inr (ctx_map', events, rest)
     \<Longrightarrow> list_all (\<lambda>e. \<not> positions e) events"
proof (induction packets arbitrary: ctx_map ctx_map' events rest)
  case Nil
  then show ?case by simp
next
  case (Cons p packets)
  from Cons.prems obtain ctx where ctx: "map_of ctx_map (pkt_stream p) = Some ctx"
    by (auto split: option.splits)
  show ?case
  proof (cases "is_done M ctx")
    case True
    with Cons.prems ctx obtain events' where
      rec: "demux_loop M ctx_map packets = Inr (ctx_map', events', rest)"
      and ev: "events = Demux p # events'"
      by (auto split: sum.splits)
    from Cons.IH [OF rec] ev show ?thesis by simp
  next
    case False
    obtain dst_packets st where dec: "decode_edit_encode M p ctx = (dst_packets, st)"
      by (cases "decode_edit_encode M p ctx")
    have mux: "list_all (\<lambda>e. \<not> positions e) (map Mux dst_packets)"
      by (induction dst_packets) simp_all
    let ?ctx_map1 = "AList.update (pkt_stream p) (with_state st ctx) ctx_map"
    show ?thesis
    proof (cases "list_all (\<lambda>(idx, c). is_done M c) ?ctx_map1")
      case True
      with Cons.prems ctx False dec mux show ?thesis by auto
    next
      case not_all: False
      with Cons.prems ctx False dec obtain events' where
        rec: "demux_loop M ?ctx_map1 packets = Inr (ctx_map', events', rest)"
        and ev: "events = (Demux p # Decode (pkt_stream p) p # map Mux dst_packets) @ events'"
        by (auto split: sum.splits)
      from Cons.IH [OF rec] ev mux show ?thesis by simp
    qed
  qed
qed

lemma provision_streams_keys:
  "provision_streams P editor valid (dsts, ctx_map) = Inr (dsts', ctx_map')
     \<Longrightarrow> \<forall>(idx, ctx) \<in> set ctx_map. stream_index (src_stream ctx) = idx
     \<Longrightarrow> \<forall>(idx, ctx) \<in> set ctx_map'. stream_index (src_stream ctx) = idx"
proof (induction valid arbitrary: dsts ctx_map)
  case Nil
  then show ?case by simp
next
  case (Cons src valid)
  from Cons.prems(1) consider
    (added) ctx where "provision_streams P editor valid
         (dsts @ [dst_stream ctx], AList.update (stream_index src) ctx ctx_map)
       = Inr (dsts', ctx_map')"
      "provision_video P editor (length dsts) src = Inr ctx
         \<or> provision_audio P editor (length dsts) src = Inr ctx"
    | (skipped) "provision_streams P editor valid (dsts, ctx_map) = Inr (dsts', ctx_map')"
    by (auto split: sum.splits if_splits)
  then show ?case
  proof cases
    case added
    from added(2) have "stream_index (src_stream ctx) = stream_index src"
      by (auto simp: provision_video_def provision_audio_def Let_def
          split: option.splits sum.splits)
    with Cons.prems(2) set_update_subset [of "stream_index src" ctx ctx_map]
    have "\<forall>(idx, c) \<in> set (AList.update (stream_index src) ctx ctx_map).
            stream_index (src_stream c) = idx"
      by auto
    with added(1) show ?thesis by (rule Cons.IH)
  next
    case skipped
    then show ?thesis using Cons.prems(2) by (rule Cons.IH)
  qed
qed

lemma prepare_destination_keys:
  assumes "prepare_destination P editor streams = Inr (dsts, ctx_map, logs)"
    and "(idx, ctx) \<in> set ctx_map"
  shows "stream_index (src_stream ctx) = idx"
proof -
  from assms(1) obtain dsts0 ctx_map0 logs' where
    prov: "provision_streams P editor (fst (select_streams streams)) ([], [])
             = Inr (dsts0, ctx_map0)"
    and lim: "limit_all (if dsts0 = [] then None else Some (dst_index (last dsts0)))
       (map (\<lambda>(idx, ctx). (idx, start_encoding_ctx P ctx)) ctx_map0) = Inr (ctx_map, logs')"
    by (rule prepare_destination_stages)
  from related_member [OF limit_all_related [OF lim] assms(2)]
  obtain started l where
    "(idx, started) \<in> set (map (\<lambda>(idx, ctx). (idx, start_encoding_ctx P ctx)) ctx_map0)"
    and one: "limit_max_fps (if dsts0 = [] then None else Some (dst_index (last dsts0))) started
                = Inr (ctx, l)"
    by blast
  then obtain c0 where c0: "(idx, c0) \<in> set ctx_map0" "started = start_encoding_ctx P c0"
    by auto
  from provision_streams_keys [OF prov] c0(1) have "stream_index (src_stream c0) = idx"
    by auto
  with limit_max_fps_result(1) [OF one [unfolded c0(2)]] show ?thesis by simp
qed

lemma probed_times:
  assumes "prepare_destination P editor streams = Inr (dsts, ctx_map, logs)"
  shows "fst (snd (probe_all M W ctx_map))
           = map (\<lambda>(idx, ctx). (idx, first_packet_time W idx)) ctx_map"
proof -
  have "map (\<lambda>(idx, ctx). (idx, first_packet_time W (stream_index (src_stream ctx)))) ctx_map
          = map (\<lambda>(idx, ctx). (idx, first_packet_time W idx)) ctx_map"
    using prepare_destination_keys [OF assms] by (intro map_cong) auto
  then show ?thesis by (simp add: probe_all_first_pkts)
qed

text \<open>
  The two loops before the main loop, written out. Lines 66-70 seek every context and
  read the first packet of its stream; lines 74-77 call \<^verbatim>\<open>prepare_for_editing\<close> on every
  context, in the order of the map.
\<close>

definition probing :: "(nat \<times> ('f, 's) EditCtx) list \<Rightarrow> ('a, 'q) event list" where
  "probing ctx_map = concat (map (\<lambda>(idx, ctx). [Seek_beginning idx, Probe idx]) ctx_map)"

definition priming ::
  "('f, 's, 'a, 'q) ctx_methods \<Rightarrow> 'f changes \<Rightarrow> (nat \<times> ('f, 's) EditCtx) list
     \<Rightarrow> ('a, 'q) event list" where
  "priming M chs ctx_map =
     map (\<lambda>(idx, ctx). Prepare idx (fst (prepare_for_editing M chs ctx))) ctx_map"

definition prepared_contexts ::
  "('f, 's, 'a, 'q) ctx_methods \<Rightarrow> ('f, 'a) world \<Rightarrow> 'f changes
     \<Rightarrow> (nat \<times> ('f, 's) EditCtx) list \<Rightarrow> (nat \<times> ('f, 's) EditCtx) list" where
  "prepared_contexts M W ch ctx_map =
     fst (prepare_all M (changes_given M ch) (fst (probe_all M W ctx_map)))"

lemma probe_all_probing:
  "\<forall>(idx, ctx) \<in> set ctx_map. stream_index (src_stream ctx) = idx
     \<Longrightarrow> snd (snd (probe_all M W ctx_map)) = probing ctx_map"
  by (induction ctx_map) (auto simp: Let_def split_beta probing_def)

lemma prepare_all_priming: "snd (snd (prepare_all M chs ctx_map)) = priming M chs ctx_map"
  by (induction ctx_map) (auto simp: Let_def split_beta priming_def)

lemma prepare_all_keys: "map fst (fst (prepare_all M chs ctx_map)) = map fst ctx_map"
  by (induction ctx_map) (auto simp: Let_def split_beta)

lemma probe_all_keys: "map fst (fst (probe_all M W ctx_map)) = map fst ctx_map"
  by (induction ctx_map) (auto simp: Let_def split_beta)

lemma prepared_contexts_keys: "map fst (prepared_contexts M W ch ctx_map) = map fst ctx_map"
  by (simp add: prepared_contexts_def prepare_all_keys probe_all_keys)




lemma edit_trace:
  assumes prep: "prepare_destination P editor (open_source W (resolve_path W src_path))
                   = Inr (dsts, ctx_map, logs)"
  shows "edit M P W editor src_path ch dst_path =
     (case edit_finish M W (resolve_path W src_path) (resolve_path W dst_path) dsts
             (prepared_contexts M W ch ctx_map)
             (streams_ordered (fst (snd (probe_all M W ctx_map))))
             (valid_streams_of M W ch ctx_map) of
        Inl e \<Rightarrow> Inl e
      | Inr events \<Rightarrow>
          Inr (Log (Info (Started_editing src_path)) # Open_source (resolve_path W src_path)
               # Open_dest (resolve_path W dst_path) # map Log logs
               @ probing ctx_map
               @ priming M (changes_given M ch) (fst (probe_all M W ctx_map))
               @ events))"
proof -
  have "\<forall>(idx, ctx) \<in> set ctx_map. stream_index (src_stream ctx) = idx"
    using prepare_destination_keys [OF prep] by auto
  then show ?thesis
    by (simp add: edit_unfold [OF prep] probe_all_probing prepare_all_priming
        prepared_contexts_def split: sum.splits)
qed

lemma first_ctx_of_succeeds:
  assumes "valid_streams \<noteq> []" "fst ` set valid_streams \<subseteq> fst ` set first_pkts"
  shows "\<exists>idx. first_ctx_of (streams_ordered first_pkts) valid_streams = Inr idx"
proof -
  from assms(1) obtain entry where "entry \<in> set valid_streams"
    by (cases valid_streams) auto
  with assms(2) have "fst entry \<in> set (streams_ordered first_pkts)"
    by (auto simp: streams_ordered_def)
  moreover have "fst entry \<in> fst ` set valid_streams"
    using \<open>entry \<in> set valid_streams\<close> by simp
  ultimately have "filter (\<lambda>idx. idx \<in> fst ` set valid_streams) (streams_ordered first_pkts) \<noteq> []"
    by (auto simp: filter_empty_conv)
  then show ?thesis
    by (auto simp: first_ctx_of_def split: list.splits)
qed

lemma demux_loop_returns:
  "\<forall>p \<in> set packets. pkt_stream p \<in> fst ` set ctx_map
     \<Longrightarrow> \<exists>ctx_map' events rest. demux_loop M ctx_map packets = Inr (ctx_map', events, rest)"
proof (induction packets arbitrary: ctx_map)
  case Nil
  show ?case by simp
next
  case (Cons p packets)
  from Cons.prems obtain ctx where ctx: "map_of ctx_map (pkt_stream p) = Some ctx"
    by (cases "map_of ctx_map (pkt_stream p)") (auto simp: map_of_eq_None_iff)
  from Cons.prems have same: "\<exists>ctx_map' events rest.
      demux_loop M ctx_map packets = Inr (ctx_map', events, rest)"
    by (intro Cons.IH) simp
  obtain dst_packets st where dec: "decode_edit_encode M p ctx = (dst_packets, st)"
    by (cases "decode_edit_encode M p ctx")
  let ?ctx_map1 = "AList.update (pkt_stream p) (with_state st ctx) ctx_map"
  have "\<forall>p \<in> set packets. pkt_stream p \<in> fst ` set ?ctx_map1"
    using Cons.prems by (simp add: dom_update)
  then have "\<exists>ctx_map' events rest.
      demux_loop M ?ctx_map1 packets = Inr (ctx_map', events, rest)"
    by (rule Cons.IH)
  with same ctx dec show ?case
    by (auto simp: Let_def)
qed

lemma demux_loop_inert:
  assumes "map_of ctx_map i = Some c" "\<not> is_done M c"
    and "\<forall>p \<in> set packets. pkt_stream p \<noteq> i \<and> pkt_stream p \<in> fst ` set ctx_map"
  shows "\<exists>ctx_map' events. demux_loop M ctx_map packets = Inr (ctx_map', events, []) \<and>
           demuxed events = packets"
  using assms
proof (induction packets arbitrary: ctx_map)
  case Nil
  show ?case by simp
next
  case (Cons p packets)
  from Cons.prems(3) obtain ctx where ctx: "map_of ctx_map (pkt_stream p) = Some ctx"
    by (cases "map_of ctx_map (pkt_stream p)") (auto simp: map_of_eq_None_iff)
  from Cons.prems have other: "pkt_stream p \<noteq> i"
    and tail: "\<forall>p \<in> set packets. pkt_stream p \<noteq> i \<and> pkt_stream p \<in> fst ` set ctx_map"
    by simp_all
  show ?case
  proof (cases "is_done M ctx")
    case True
    from Cons.IH [OF Cons.prems(1,2) tail] obtain ctx_map' events where
      "demux_loop M ctx_map packets = Inr (ctx_map', events, [])" "demuxed events = packets"
      by blast
    with ctx True show ?thesis by simp
  next
    case False
    obtain dst_packets st where dec: "decode_edit_encode M p ctx = (dst_packets, st)"
      by (cases "decode_edit_encode M p ctx")
    let ?ctx_map1 = "AList.update (pkt_stream p) (with_state st ctx) ctx_map"
    have look: "map_of ?ctx_map1 i = Some c"
      using Cons.prems(1) other by (simp add: update_conv')
    then have "(i, c) \<in> set ?ctx_map1" by (rule map_of_SomeD)
    with Cons.prems(2) have not_all: "\<not> list_all (\<lambda>(idx, c). is_done M c) ?ctx_map1"
      by (auto simp: list_all_iff)
    have "\<forall>p \<in> set packets. pkt_stream p \<noteq> i \<and> pkt_stream p \<in> fst ` set ?ctx_map1"
      using tail by (simp add: dom_update)
    from Cons.IH [OF look Cons.prems(2) this] obtain ctx_map' events where
      "demux_loop M ?ctx_map1 packets = Inr (ctx_map', events, [])" "demuxed events = packets"
      by blast
    with ctx False dec not_all show ?thesis by simp
  qed
qed

lemma demuxed_quiet: "list_all (\<lambda>e. \<not> transfers e) events \<Longrightarrow> demuxed events = []"
proof (induction events)
  case Nil
  show ?case by simp
next
  case (Cons e events)
  then show ?case by (cases e) (simp_all add: demuxed_def)
qed

lemma demuxed_flushes: "demuxed (map (\<lambda>dst. Flush (f dst)) dsts) = []"
  by (induction dsts) (simp_all add: demuxed_def)

lemma probing_quiet: "list_all (\<lambda>e. \<not> transfers e) (probing ctx_map)"
  by (induction ctx_map) (auto simp: probing_def)

lemma priming_quiet: "list_all (\<lambda>e. \<not> transfers e) (priming M chs ctx_map)"
  by (induction ctx_map) (auto simp: priming_def)

lemma logs_quiet: "list_all (\<lambda>e. \<not> transfers e) (map Log logs)"
  by (induction logs) simp_all

text \<open>
  The packets the source yields in the main loop: \<^verbatim>\<open>source.demux\<close> is asked for the streams
  kept in \<^verbatim>\<open>valid_streams\<close> (line 84).
\<close>

definition main_packets ::
  "('f, 's, 'a, 'q) ctx_methods \<Rightarrow> ('f, 'a) world \<Rightarrow> 'f changes
     \<Rightarrow> (nat \<times> ('f, 's) EditCtx) list \<Rightarrow> 'a Packet list" where
  "main_packets M W ch ctx_map =
     demux W (map (\<lambda>(idx, s). stream_index s) (valid_streams_of M W ch ctx_map))"

text \<open>
  What the branch of lines 80-91 gives when a stream is valid and the source yields in
  the main loop only packets of valid streams.
\<close>

lemma edit_valid_returns:
  assumes valid: "valid_streams_of M W ch ctx_map \<noteq> []"
    and asked: "\<forall>p \<in> set (main_packets M W ch ctx_map).
             pkt_stream p \<in> fst ` set (valid_streams_of M W ch ctx_map)"
  shows "\<exists>idx ctx ctx_map' events rest.
           first_ctx_of (streams_ordered (fst (snd (probe_all M W ctx_map))))
             (valid_streams_of M W ch ctx_map) = Inr idx \<and>
           map_of (prepared_contexts M W ch ctx_map) idx = Some ctx \<and>
           demux_loop M
             (AList.update idx (with_state (seek_beginning M ctx) ctx)
                (prepared_contexts M W ch ctx_map))
             (main_packets M W ch ctx_map)
             = Inr (ctx_map', events, rest) \<and>
           edit_valid M W dsts (prepared_contexts M W ch ctx_map)
             (streams_ordered (fst (snd (probe_all M W ctx_map))))
             (valid_streams_of M W ch ctx_map)
             = Inr (Seek_beginning idx # events @ map (\<lambda>dst. Flush (dst_index dst)) dsts)"
proof -
  let ?valid = "valid_streams_of M W ch ctx_map"
  let ?prepared = "prepared_contexts M W ch ctx_map"
  let ?first_pkts = "fst (snd (probe_all M W ctx_map))"
  have keys: "fst ` set ?valid \<subseteq> fst ` set ctx_map"
    by (rule valid_streams_of_keys)
  have "fst ` set ?first_pkts = fst ` set ctx_map"
    by (force simp: probe_all_first_pkts)
  with keys have "fst ` set ?valid \<subseteq> fst ` set ?first_pkts" by simp
  from first_ctx_of_succeeds [OF valid this] obtain idx where
    first: "first_ctx_of (streams_ordered ?first_pkts) ?valid = Inr idx" ..
  from first_ctx_of_earliest(1) [OF first] keys have "idx \<in> fst ` set ctx_map" by auto
  moreover have pk: "fst ` set ?prepared = fst ` set ctx_map"
    using prepared_contexts_keys [of M W ch ctx_map] by (metis list.set_map)
  ultimately obtain ctx where ctx: "map_of ?prepared idx = Some ctx"
    by (cases "map_of ?prepared idx") (auto simp: map_of_eq_None_iff)
  let ?sought = "AList.update idx (with_state (seek_beginning M ctx) ctx) ?prepared"
  have "\<forall>p \<in> set (main_packets M W ch ctx_map). pkt_stream p \<in> fst ` set ?sought"
    using asked keys pk by (auto simp: dom_update)
  from demux_loop_returns [OF this] obtain ctx_map' events rest where
    loop: "demux_loop M ?sought (main_packets M W ch ctx_map) = Inr (ctx_map', events, rest)"
    by blast
  with first ctx show ?thesis
    by (simp add: edit_valid_def main_packets_def)
qed

text \<open>
  Claim C5, as amended. Let the destination be prepared and let \<^verbatim>\<open>edit\<close> return. What it
  did begins with the opening of the two containers and the messages of provisioning,
  then the probe (for every provisioned context, in the order of the map, a seek to the
  beginning and the reading of the first packet), then the calls of
  \<^verbatim>\<open>prepare_for_editing\<close>. After these: if no stream is valid for editing, there is no
  seek, probe or preparation at all; if some stream is, there is first one seek to the
  beginning, and after it no seek, probe or preparation. That one seek is on a stream
  valid for editing, and the first packet of that stream, as probed, is no later than
  the first packet of any stream valid for editing.
\<close>

theorem one_seek_on_earliest_valid_stream:
  assumes prep: "prepare_destination P editor (open_source W (resolve_path W src_path))
                   = Inr (dsts, ctx_map, logs)"
    and ret: "edit M P W editor src_path ch dst_path = Inr trace"
  shows "\<exists>rest.
           trace = Log (Info (Started_editing src_path)) # Open_source (resolve_path W src_path)
                   # Open_dest (resolve_path W dst_path) # map Log logs
                   @ probing ctx_map
                   @ priming M (changes_given M ch) (fst (probe_all M W ctx_map))
                   @ rest \<and>
           (if valid_streams_of M W ch ctx_map = []
            then list_all (\<lambda>e. \<not> positions e) rest
            else \<exists>idx loop.
                   rest = Seek_beginning idx # loop \<and>
                   list_all (\<lambda>e. \<not> positions e) loop \<and>
                   idx \<in> fst ` set (valid_streams_of M W ch ctx_map) \<and>
                   (\<forall>j \<in> fst ` set (valid_streams_of M W ch ctx_map).
                      first_packet_time W idx \<le> first_packet_time W j))"
proof -
  let ?valid = "valid_streams_of M W ch ctx_map"
  let ?first_pkts = "fst (snd (probe_all M W ctx_map))"
  let ?prepared = "prepared_contexts M W ch ctx_map"
  let ?opening = "Log (Info (Started_editing src_path)) # Open_source (resolve_path W src_path)
                # Open_dest (resolve_path W dst_path) # map Log logs
                @ probing ctx_map
                @ priming M (changes_given M ch) (fst (probe_all M W ctx_map))"
  let ?closing = "[Log (Info (Finished_editing (resolve_path W src_path)
                    (resolve_path W dst_path))), Close_dest, Close_source]"
  from ret obtain events where
    fin: "edit_finish M W (resolve_path W src_path) (resolve_path W dst_path) dsts ?prepared
            (streams_ordered ?first_pkts) ?valid = Inr events"
    and trace: "trace = ?opening @ events"
    by (auto simp: edit_trace [OF prep] split: sum.splits)
  show ?thesis
  proof (cases "?valid = []")
    case True
    with fin have "events = Log (Warning (Empty_recording (resolve_path W src_path))) # ?closing"
      by (auto simp: edit_finish_def)
    then have "list_all (\<lambda>e. \<not> positions e) events" by simp
    with trace True show ?thesis by simp
  next
    case False
    with fin obtain main where
      main: "edit_valid M W dsts ?prepared (streams_ordered ?first_pkts) ?valid = Inr main"
      and events: "events = main @ ?closing"
      by (auto simp: edit_finish_def split: sum.splits)
    from main obtain idx ctx_map2 loop_events left where
      first: "first_ctx_of (streams_ordered ?first_pkts) ?valid = Inr idx"
      and loop: "demux_loop M
                   (AList.update idx
                      (with_state (seek_beginning M (the (map_of ?prepared idx)))
                         (the (map_of ?prepared idx))) ?prepared)
                   (demux W (map (\<lambda>(idx, s). stream_index s) ?valid))
                 = Inr (ctx_map2, loop_events, left)"
      and main_eq: "main = Seek_beginning idx # loop_events
                      @ map (\<lambda>dst. Flush (dst_index dst)) dsts"
      by (auto simp: edit_valid_def Let_def split: sum.splits option.splits)
    let ?loop = "loop_events @ map (\<lambda>dst. Flush (dst_index dst)) dsts @ ?closing"
    have shape: "events = Seek_beginning idx # ?loop"
      using events main_eq by simp
    have "list_all (\<lambda>e. \<not> positions e) (map (\<lambda>dst. Flush (dst_index dst)) dsts)"
      by (induction dsts) simp_all
    with demux_loop_events [OF loop] have quiet: "list_all (\<lambda>e. \<not> positions e) ?loop"
      by simp
    from first_ctx_of_earliest [OF first] obtain t where
      mem: "idx \<in> fst ` set ?valid"
      and t: "(idx, t) \<in> set ?first_pkts"
      and least: "\<forall>(j, tj) \<in> set ?first_pkts. j \<in> fst ` set ?valid \<longrightarrow> t \<le> tj"
      by blast
    note times = probed_times [OF prep, of M W]
    from t have t_eq: "t = first_packet_time W idx"
      unfolding times by auto
    have "first_packet_time W idx \<le> first_packet_time W j" if "j \<in> fst ` set ?valid" for j
    proof -
      from that valid_streams_of_keys [of M W ch ctx_map] have "j \<in> fst ` set ctx_map" by auto
      then have "(j, first_packet_time W j) \<in> set ?first_pkts"
        unfolding times by force
      with least that t_eq show ?thesis by auto
    qed
    with shape quiet mem trace False show ?thesis by auto
  qed
qed

text \<open>
  Claim C4 fails on the code. The specification describes the contexts: a context whose
  \<^verbatim>\<open>prepare_for_editing\<close> returned false is left inert and kept out of the loop, and a
  context becomes done in \<^verbatim>\<open>decode_edit_encode\<close> only; so an inert context that is not
  done stays so. Line 90 tests every context of the map, the inert ones too. Let the
  destination be prepared, let some stream be valid for editing, let the source yield in
  the main loop only packets of valid streams, and let one provisioned context be inert
  (not among the valid ones) and not done when the loop begins. Then \<^verbatim>\<open>edit\<close> returns,
  and it took every packet the source had to yield: the loop never ended early, whatever
  the contexts of the valid streams reported.
\<close>

theorem inert_context_defeats_early_stop:
  assumes prep: "prepare_destination P editor (open_source W (resolve_path W src_path))
                   = Inr (dsts, ctx_map, logs)"
    and inert: "map_of (prepared_contexts M W ch ctx_map) i = Some c"
      "i \<notin> fst ` set (valid_streams_of M W ch ctx_map)"
      "\<not> is_done M c"
    and valid: "valid_streams_of M W ch ctx_map \<noteq> []"
    and asked: "\<forall>p \<in> set (main_packets M W ch ctx_map).
             pkt_stream p \<in> fst ` set (valid_streams_of M W ch ctx_map)"
  shows "\<exists>trace. edit M P W editor src_path ch dst_path = Inr trace \<and>
           demuxed trace = main_packets M W ch ctx_map"
proof -
  let ?valid = "valid_streams_of M W ch ctx_map"
  let ?prepared = "prepared_contexts M W ch ctx_map"
  let ?opening = "Log (Info (Started_editing src_path)) # Open_source (resolve_path W src_path)
                # Open_dest (resolve_path W dst_path) # map Log logs
                @ probing ctx_map
                @ priming M (changes_given M ch) (fst (probe_all M W ctx_map))"
  from edit_valid_returns [OF valid asked, of dsts] obtain idx ctx ctx_map' events rest where
    first: "first_ctx_of (streams_ordered (fst (snd (probe_all M W ctx_map)))) ?valid = Inr idx"
    and ctx: "map_of ?prepared idx = Some ctx"
    and loop: "demux_loop M
             (AList.update idx (with_state (seek_beginning M ctx) ctx) ?prepared)
             (main_packets M W ch ctx_map) = Inr (ctx_map', events, rest)"
    and main: "edit_valid M W dsts ?prepared
             (streams_ordered (fst (snd (probe_all M W ctx_map)))) ?valid
             = Inr (Seek_beginning idx # events @ map (\<lambda>dst. Flush (dst_index dst)) dsts)"
    by (elim exE conjE)
  let ?sought = "AList.update idx (with_state (seek_beginning M ctx) ctx) ?prepared"
  from first_ctx_of_earliest(1) [OF first] inert(2) have "idx \<noteq> i" by auto
  with inert(1) have look: "map_of ?sought i = Some c"
    by (simp add: update_conv')
  have keys: "fst ` set ?valid \<subseteq> fst ` set ctx_map"
    by (rule valid_streams_of_keys)
  have pk: "fst ` set ?prepared = fst ` set ctx_map"
    using prepared_contexts_keys [of M W ch ctx_map] by (metis list.set_map)
  have "\<forall>p \<in> set (main_packets M W ch ctx_map).
          pkt_stream p \<noteq> i \<and> pkt_stream p \<in> fst ` set ?sought"
    using asked keys pk inert(2) by (auto simp: dom_update)
  from demux_loop_inert [OF look inert(3) this] loop
  have taken: "demuxed events = main_packets M W ch ctx_map"
    by auto
  have quiet: "demuxed ?opening = []"
    by (rule demuxed_quiet) (simp add: logs_quiet probing_quiet priming_quiet)
  have "edit M P W editor src_path ch dst_path
      = Inr (?opening @ Seek_beginning idx # events @ map (\<lambda>dst. Flush (dst_index dst)) dsts
             @ [Log (Info (Finished_editing (resolve_path W src_path)
                  (resolve_path W dst_path))), Close_dest, Close_source])"
    using valid main by (simp add: edit_trace [OF prep] edit_finish_def)
  moreover have "demuxed (?opening @ Seek_beginning idx # events
             @ map (\<lambda>dst. Flush (dst_index dst)) dsts
             @ [Log (Info (Finished_editing (resolve_path W src_path)
                  (resolve_path W dst_path))), Close_dest, Close_source])
      = main_packets M W ch ctx_map"
  proof -
    have "demuxed (Seek_beginning idx # events @ map (\<lambda>dst. Flush (dst_index dst)) dsts
             @ [Log (Info (Finished_editing (resolve_path W src_path)
                  (resolve_path W dst_path))), Close_dest, Close_source])
        = demuxed events"
      using demuxed_flushes [of dst_index dsts]
      by (simp add: demuxed_def)
    with quiet taken show ?thesis
      by (simp only: demuxed_simps(5) append_Nil)
  qed
  ultimately show ?thesis by blast
qed










subsection \<open>The theorems on the example recording\<close>

definition example_audio_dst :: "rat DstStream" where
  "example_audio_dst =
     \<lparr>dst_index = 1, dst_codec_name = JStr ''aac'', dst_options = JObj [],
      dst_rate = Some (JInt 48000), dst_time_base = Some (1 / 44100), dst_pix_fmt = None,
      dst_bit_rate = JInt 128000, dst_width = None, dst_height = None,
      dst_channels = Some (JInt 1), dst_thread_type = Some ''AUTO''\<rparr>"

definition example_video_ctx :: "(rat, bool) EditCtx" where
  "example_video_ctx =
     VideoEditContext (example_video\<lparr>thread_type := Some ''AUTO''\<rparr>)
       (example_video_dst\<lparr>dst_time_base := Some (1 / 25)\<rparr>) 25 False"

definition example_audio_ctx :: "(rat, bool) EditCtx" where
  "example_audio_ctx =
     AudioEditContext (example_audio\<lparr>thread_type := Some ''AUTO''\<rparr>) example_audio_dst False"

definition example_contexts :: "(nat \<times> (rat, bool) EditCtx) list" where
  "example_contexts = [(0, example_video_ctx), (1, example_audio_ctx)]"

definition video_only_world :: "(rat, nat) world" where
  "video_only_world = example_world\<lparr>open_source := (\<lambda>path. [example_video])\<rparr>"

theorem edit_without_valid_streams_witness:
  "prepare_destination example_provisioner example_editor
      (open_source video_only_world (resolve_path video_only_world ''a.mp4''))
     = Inr ([example_video_dst\<lparr>dst_time_base := Some (1 / 25)\<rparr>], [(0, example_video_ctx)],
            [Warning (Low_time_base 0 30 25)]) \<and>
   list_all (\<lambda>(idx, ctx). \<not> fst (prepare_for_editing example_methods
                                     (changes_given example_methods No_changes) ctx))
     (fst (probe_all example_methods video_only_world [(0, example_video_ctx)])) \<and>
   (\<exists>setup.
      edit example_methods example_provisioner video_only_world example_editor
          ''a.mp4'' No_changes ''b.mp4''
        = Inr (setup @
               [Log (Warning (Empty_recording (resolve_path video_only_world ''a.mp4''))),
                Log (Info (Finished_editing (resolve_path video_only_world ''a.mp4'')
                             (resolve_path video_only_world ''b.mp4''))),
                Close_dest, Close_source]) \<and>
      list_all (\<lambda>e. \<not> transfers e) setup)"
proof -
  have prep: "prepare_destination example_provisioner example_editor
      (open_source video_only_world (resolve_path video_only_world ''a.mp4''))
     = Inr ([example_video_dst\<lparr>dst_time_base := Some (1 / 25)\<rparr>], [(0, example_video_ctx)],
            [Warning (Low_time_base 0 30 25)])"
    by code_simp
  have none: "list_all (\<lambda>(idx, ctx). \<not> fst (prepare_for_editing example_methods
                                     (changes_given example_methods No_changes) ctx))
     (fst (probe_all example_methods video_only_world [(0, example_video_ctx)]))"
    by code_simp
  show ?thesis
    by (intro conjI prep none edit_without_valid_streams [OF prep none])
qed

text \<open>
  Claim C5, as stated, fails. In the example both streams are provisioned and the video
  stream (index 0) has the earliest first packet of all, but it is not valid for
  editing: the one seek before the loop is on the audio stream (index 1).
\<close>

theorem first_seek_is_not_on_the_earliest_stream:
  "prepare_destination example_provisioner example_editor
      (open_source example_world (resolve_path example_world ''a.mp4''))
     = Inr ([example_video_dst\<lparr>dst_time_base := Some (1 / 25)\<rparr>, example_audio_dst],
            example_contexts, [Warning (Low_time_base 1 30 25)]) \<and>
   first_packet_time example_world 0 < first_packet_time example_world 1 \<and>
   edit example_methods example_provisioner example_world example_editor
       ''a.mp4'' No_changes ''b.mp4''
     = Inr [Log (Info (Started_editing ''a.mp4'')), Open_source ''/rec/a.mp4'',
            Open_dest ''/rec/b.mp4'', Log (Warning (Low_time_base 1 30 25)),
            Seek_beginning 0, Probe 0, Seek_beginning 1, Probe 1,
            Prepare 0 False, Prepare 1 True,
            Seek_beginning 1,
            Demux \<lparr>pkt_stream = 1, pkt_data = 7\<rparr>,
            Decode 1 \<lparr>pkt_stream = 1, pkt_data = 7\<rparr>, Mux 7,
            Demux \<lparr>pkt_stream = 1, pkt_data = 8\<rparr>, Flush 0, Flush 1,
            Log (Info (Finished_editing ''/rec/a.mp4'' ''/rec/b.mp4'')),
            Close_dest, Close_source]"
  by code_simp

theorem one_seek_on_earliest_valid_stream_witness:
  "(\<exists>rest.
      edit example_methods example_provisioner example_world example_editor
          ''a.mp4'' No_changes ''b.mp4''
        = Inr (Log (Info (Started_editing ''a.mp4''))
               # Open_source (resolve_path example_world ''a.mp4'')
               # Open_dest (resolve_path example_world ''b.mp4'')
               # map Log [Warning (Low_time_base 1 30 25)]
               @ probing example_contexts
               @ priming example_methods (changes_given example_methods No_changes)
                   (fst (probe_all example_methods example_world example_contexts))
               @ rest) \<and>
      (\<exists>idx loop.
         rest = Seek_beginning idx # loop \<and>
         list_all (\<lambda>e. \<not> positions e) loop \<and>
         idx \<in> fst ` set (valid_streams_of example_methods example_world No_changes
                             example_contexts) \<and>
         (\<forall>j \<in> fst ` set (valid_streams_of example_methods example_world No_changes
                               example_contexts).
            first_packet_time example_world idx \<le> first_packet_time example_world j))) \<and>
   (\<exists>rest.
      edit example_methods example_provisioner video_only_world example_editor
          ''a.mp4'' No_changes ''b.mp4''
        = Inr (Log (Info (Started_editing ''a.mp4''))
               # Open_source (resolve_path video_only_world ''a.mp4'')
               # Open_dest (resolve_path video_only_world ''b.mp4'')
               # map Log [Warning (Low_time_base 0 30 25)]
               @ probing [(0, example_video_ctx)]
               @ priming example_methods (changes_given example_methods No_changes)
                   (fst (probe_all example_methods video_only_world [(0, example_video_ctx)]))
               @ rest) \<and>
      list_all (\<lambda>e. \<not> positions e) rest)"
proof (intro conjI)
  have prep: "prepare_destination example_provisioner example_editor
      (open_source example_world (resolve_path example_world ''a.mp4''))
     = Inr ([example_video_dst\<lparr>dst_time_base := Some (1 / 25)\<rparr>, example_audio_dst],
            example_contexts, [Warning (Low_time_base 1 30 25)])"
    by code_simp
  have valid: "valid_streams_of example_methods example_world No_changes example_contexts \<noteq> []"
    by code_simp
  have "\<not> isl (edit example_methods example_provisioner example_world example_editor
          ''a.mp4'' No_changes ''b.mp4'')"
    by code_simp
  then obtain trace where ret: "edit example_methods example_provisioner example_world
      example_editor ''a.mp4'' No_changes ''b.mp4'' = Inr trace"
    by (cases "edit example_methods example_provisioner example_world example_editor
          ''a.mp4'' No_changes ''b.mp4''") auto
  from one_seek_on_earliest_valid_stream [OF prep ret] valid
  show "\<exists>rest.
      edit example_methods example_provisioner example_world example_editor
          ''a.mp4'' No_changes ''b.mp4''
        = Inr (Log (Info (Started_editing ''a.mp4''))
               # Open_source (resolve_path example_world ''a.mp4'')
               # Open_dest (resolve_path example_world ''b.mp4'')
               # map Log [Warning (Low_time_base 1 30 25)]
               @ probing example_contexts
               @ priming example_methods (changes_given example_methods No_changes)
                   (fst (probe_all example_methods example_world example_contexts))
               @ rest) \<and>
      (\<exists>idx loop.
         rest = Seek_beginning idx # loop \<and>
         list_all (\<lambda>e. \<not> positions e) loop \<and>
         idx \<in> fst ` set (valid_streams_of example_methods example_world No_changes
                             example_contexts) \<and>
         (\<forall>j \<in> fst ` set (valid_streams_of example_methods example_world No_changes
                               example_contexts).
            first_packet_time example_world idx \<le> first_packet_time example_world j))"
    unfolding ret by simp
next
  have prep: "prepare_destination example_provisioner example_editor
      (open_source video_only_world (resolve_path video_only_world ''a.mp4''))
     = Inr ([example_video_dst\<lparr>dst_time_base := Some (1 / 25)\<rparr>], [(0, example_video_ctx)],
            [Warning (Low_time_base 0 30 25)])"
    by code_simp
  have none: "valid_streams_of example_methods video_only_world No_changes
      [(0, example_video_ctx)] = []"
    by code_simp
  have "\<not> isl (edit example_methods example_provisioner video_only_world example_editor
          ''a.mp4'' No_changes ''b.mp4'')"
    by code_simp
  then obtain trace where ret: "edit example_methods example_provisioner video_only_world
      example_editor ''a.mp4'' No_changes ''b.mp4'' = Inr trace"
    by (cases "edit example_methods example_provisioner video_only_world example_editor
          ''a.mp4'' No_changes ''b.mp4''") auto
  from one_seek_on_earliest_valid_stream [OF prep ret] none
  show "\<exists>rest.
      edit example_methods example_provisioner video_only_world example_editor
          ''a.mp4'' No_changes ''b.mp4''
        = Inr (Log (Info (Started_editing ''a.mp4''))
               # Open_source (resolve_path video_only_world ''a.mp4'')
               # Open_dest (resolve_path video_only_world ''b.mp4'')
               # map Log [Warning (Low_time_base 0 30 25)]
               @ probing [(0, example_video_ctx)]
               @ priming example_methods (changes_given example_methods No_changes)
                   (fst (probe_all example_methods video_only_world [(0, example_video_ctx)]))
               @ rest) \<and>
      list_all (\<lambda>e. \<not> positions e) rest"
    unfolding ret by simp
qed

text \<open>
  The example in the loop itself. Only the audio context (index 1) is valid for editing;
  the video context is inert and not done. After the first packet the audio context is
  done, so every context of a valid stream is done, and a packet remains; the loop does
  not end there: it takes the second packet too (and passes it over), leaving nothing
  in the source.
\<close>

theorem loop_goes_on_when_only_valid_contexts_are_done:
  "prepare_all example_methods No_changes example_contexts
     = (example_contexts, [(1, example_audio\<lparr>thread_type := Some ''AUTO''\<rparr>)],
        [Prepare 0 False, Prepare 1 True]) \<and>
   demux_loop example_methods example_contexts [\<lparr>pkt_stream = 1, pkt_data = 7\<rparr>]
     = Inr ([(0, example_video_ctx), (1, with_state True example_audio_ctx)],
            [Demux \<lparr>pkt_stream = 1, pkt_data = 7\<rparr>,
             Decode 1 \<lparr>pkt_stream = 1, pkt_data = 7\<rparr>, Mux 7], []) \<and>
   is_done example_methods (with_state True example_audio_ctx) \<and>
   demux_loop example_methods example_contexts
       [\<lparr>pkt_stream = 1, pkt_data = 7\<rparr>, \<lparr>pkt_stream = 1, pkt_data = 8\<rparr>]
     = Inr ([(0, example_video_ctx), (1, with_state True example_audio_ctx)],
            [Demux \<lparr>pkt_stream = 1, pkt_data = 7\<rparr>,
             Decode 1 \<lparr>pkt_stream = 1, pkt_data = 7\<rparr>, Mux 7,
             Demux \<lparr>pkt_stream = 1, pkt_data = 8\<rparr>], [])"
  by code_simp

theorem inert_context_defeats_early_stop_witness:
  "map_of (prepared_contexts example_methods example_world No_changes example_contexts) 0
     = Some example_video_ctx \<and>
   0 \<notin> fst ` set (valid_streams_of example_methods example_world No_changes example_contexts) \<and>
   \<not> is_done example_methods example_video_ctx \<and>
   valid_streams_of example_methods example_world No_changes example_contexts
     = [(1, example_audio\<lparr>thread_type := Some ''AUTO''\<rparr>)] \<and>
   main_packets example_methods example_world No_changes example_contexts
     = [\<lparr>pkt_stream = 1, pkt_data = 7\<rparr>, \<lparr>pkt_stream = 1, pkt_data = 8\<rparr>] \<and>
   (\<exists>trace.
      edit example_methods example_provisioner example_world example_editor
          ''a.mp4'' No_changes ''b.mp4'' = Inr trace \<and>
      demuxed trace = [\<lparr>pkt_stream = 1, pkt_data = 7\<rparr>, \<lparr>pkt_stream = 1, pkt_data = 8\<rparr>])"
proof -
  have prep: "prepare_destination example_provisioner example_editor
      (open_source example_world (resolve_path example_world ''a.mp4''))
     = Inr ([example_video_dst\<lparr>dst_time_base := Some (1 / 25)\<rparr>, example_audio_dst],
            example_contexts, [Warning (Low_time_base 1 30 25)])"
    by code_simp
  have inert: "map_of (prepared_contexts example_methods example_world No_changes
                  example_contexts) 0 = Some example_video_ctx"
    "\<not> is_done example_methods example_video_ctx"
    by code_simp+
  have valid: "valid_streams_of example_methods example_world No_changes example_contexts
     = [(1, example_audio\<lparr>thread_type := Some ''AUTO''\<rparr>)]"
    by code_simp
  have packets: "main_packets example_methods example_world No_changes example_contexts
     = [\<lparr>pkt_stream = 1, pkt_data = 7\<rparr>, \<lparr>pkt_stream = 1, pkt_data = 8\<rparr>]"
    by code_simp
  have out: "0 \<notin> fst ` set (valid_streams_of example_methods example_world No_changes
                              example_contexts)"
    unfolding valid by simp
  have some: "valid_streams_of example_methods example_world No_changes example_contexts \<noteq> []"
    unfolding valid by simp
  have asked: "\<forall>p \<in> set (main_packets example_methods example_world No_changes
                             example_contexts).
      pkt_stream p \<in> fst ` set (valid_streams_of example_methods example_world No_changes
                                  example_contexts)"
    unfolding valid packets by simp
  from inert_context_defeats_early_stop [OF prep inert(1) out inert(2) some asked,
      of "''b.mp4''"]
  have "\<exists>trace.
      edit example_methods example_provisioner example_world example_editor
          ''a.mp4'' No_changes ''b.mp4'' = Inr trace \<and>
      demuxed trace = [\<lparr>pkt_stream = 1, pkt_data = 7\<rparr>, \<lparr>pkt_stream = 1, pkt_data = 8\<rparr>]"
    unfolding packets .
  with inert valid packets out show ?thesis by (intro conjI)
qed

text \<open>
  Without an inert context the loop does end early: with the audio context alone in the
  map, the second packet is left in the source.
\<close>

lemma demux_loop_step_on_example:
  "map_of [(0, example_video_ctx), (1, with_state True example_audio_ctx)]
       (pkt_stream \<lparr>pkt_stream = 1, pkt_data = 8 :: nat\<rparr>)
     = Some (with_state True example_audio_ctx) \<and>
   is_done example_methods (with_state True example_audio_ctx) \<and>
   demux_loop example_methods
       [(0, example_video_ctx), (1, with_state True example_audio_ctx)]
       [\<lparr>pkt_stream = 1, pkt_data = 8\<rparr>]
     = Inr ([(0, example_video_ctx), (1, with_state True example_audio_ctx)],
            [Demux \<lparr>pkt_stream = 1, pkt_data = 8\<rparr>], []) \<and>
   map_of [(1, example_audio_ctx)] (pkt_stream \<lparr>pkt_stream = 1, pkt_data = 7 :: nat\<rparr>)
     = Some example_audio_ctx \<and>
   \<not> is_done example_methods example_audio_ctx \<and>
   demux_loop example_methods [(1, example_audio_ctx)]
       [\<lparr>pkt_stream = 1, pkt_data = 7\<rparr>, \<lparr>pkt_stream = 1, pkt_data = 8\<rparr>]
     = Inr ([(1, with_state True example_audio_ctx)],
            [Demux \<lparr>pkt_stream = 1, pkt_data = 7\<rparr>,
             Decode 1 \<lparr>pkt_stream = 1, pkt_data = 7\<rparr>, Mux 7],
            [\<lparr>pkt_stream = 1, pkt_data = 8\<rparr>]) \<and>
   list_all (\<lambda>(idx, c). is_done example_methods c)
     [(1 :: nat, with_state True example_audio_ctx)]"
proof -
  let ?done = "with_state True example_audio_ctx"
  let ?p = "\<lparr>pkt_stream = 1, pkt_data = 7 :: nat\<rparr>"
  let ?r = "\<lparr>pkt_stream = 1, pkt_data = 8 :: nat\<rparr>"
  have a: "map_of [(0, example_video_ctx), (1, ?done)] (pkt_stream ?r) = Some ?done"
    "is_done example_methods ?done"
    by code_simp+
  have b: "map_of [(1, example_audio_ctx)] (pkt_stream ?p) = Some example_audio_ctx"
    "\<not> is_done example_methods example_audio_ctx"
    "list_all (\<lambda>(idx, c). is_done example_methods c)
       (AList.update (pkt_stream ?p)
          (with_state (snd (decode_edit_encode example_methods ?p example_audio_ctx))
             example_audio_ctx) [(1, example_audio_ctx)])"
    by code_simp+
  have ev: "AList.update (pkt_stream ?p)
          (with_state (snd (decode_edit_encode example_methods ?p example_audio_ctx))
             example_audio_ctx) [(1, example_audio_ctx)] = [(1, ?done)]"
    "fst (decode_edit_encode example_methods ?p example_audio_ctx) = [7]"
    by code_simp+
  note skip = demux_loop_step
    [where M = example_methods and ctx_map = "[(0, example_video_ctx), (1, ?done)]"
       and p = ?r and ctx = ?done and packets = "[]"]
  note stop = demux_loop_step
    [where M = example_methods and ctx_map = "[(1, example_audio_ctx)]"
       and p = ?p and ctx = example_audio_ctx and packets = "[?r]"]
  from skip a have first: "demux_loop example_methods [(0, example_video_ctx), (1, ?done)] [?r]
      = Inr ([(0, example_video_ctx), (1, ?done)], [Demux ?r], [])"
    by simp
  from stop b have "demux_loop example_methods [(1, example_audio_ctx)] [?p, ?r]
      = Inr (AList.update (pkt_stream ?p)
          (with_state (snd (decode_edit_encode example_methods ?p example_audio_ctx))
             example_audio_ctx) [(1, example_audio_ctx)],
             Demux ?p # Decode (pkt_stream ?p) ?p
               # map Mux (fst (decode_edit_encode example_methods ?p example_audio_ctx)),
             [?r])"
    by blast
  then have second: "demux_loop example_methods [(1, example_audio_ctx)] [?p, ?r]
      = Inr ([(1, ?done)], [Demux ?p, Decode 1 ?p, Mux 7], [?r])"
    unfolding ev by simp
  from b(3) have third: "list_all (\<lambda>(idx, c). is_done example_methods c) [(1 :: nat, ?done)]"
    by (simp only: ev)
  from a b(1,2) first second third show ?thesis by (intro conjI)
qed






end
